theory Spec2Isabelle
  imports Complex_Main "HOL-Library.Word"
begin

unbundle bit_operations_syntax

section \<open>Bytes, exceptions and the struct helpers\<close>

text \<open>
  Python \<open>bytes\<close> are lists of 8-bit words; Python integers are unbounded (\<open>int\<close>);
  \<open>time.time()\<close> readings are reals handed to each operation as \<open>now\<close>.
\<close>

type_synonym byte = "8 word"
type_synonym bytes = "byte list"

text \<open>
  The exception classes that the handlers of \<open>mesh_node.py\<close> and \<open>kiss_link.py\<close> tell
  apart. \<open>ValueError\<close> is raised by \<open>_parse_mesh_header\<close> and by out-of-range byte
  stores, \<open>StructError\<close> is \<open>struct.error\<close>, \<open>KISSClientError\<close> is raised by
  \<open>KISSClient.send\<close>, \<open>OtherError\<close> stands for an exception of any other class that
  is not a \<open>ValueError\<close> (the application callback or \<open>MeshEncryptor.decrypt\<close> may
  raise one).
\<close>

datatype exn = ValueError | StructError | KISSClientError | OtherError

text \<open>
  \<open>isinstance(e, ValueError)\<close>, the test of \<open>except ValueError\<close>: \<open>struct.error\<close> and
  \<open>KISSClientError\<close> derive from \<open>Exception\<close> directly.
\<close>

fun isinstance_ValueError :: "exn \<Rightarrow> bool" where
  "isinstance_ValueError ValueError = True"
| "isinstance_ValueError StructError = False"
| "isinstance_ValueError KISSClientError = False"
| "isinstance_ValueError OtherError = False"

definition bind_exn :: "exn + 'a \<Rightarrow> ('a \<Rightarrow> exn + 'b) \<Rightarrow> exn + 'b" where
  "bind_exn r f = (case r of Inl e \<Rightarrow> Inl e | Inr x \<Rightarrow> f x)"

text \<open>Storing a Python int into a \<open>bytearray\<close> cell, or \<open>bytes([v])\<close>: \<open>ValueError\<close>
  outside \<open>range(256)\<close>.\<close>

definition byte_of_int :: "int \<Rightarrow> exn + byte" where
  "byte_of_int v = (if 0 \<le> v \<and> v < 256 then Inr (word_of_int v) else Inl ValueError)"

text \<open>\<open>struct.pack(">I", v)\<close> and \<open>struct.unpack(">I", b)[0]\<close>.\<close>

definition pack_be32 :: "int \<Rightarrow> exn + bytes" where
  "pack_be32 v = (if 0 \<le> v \<and> v < 2 ^ 32
     then Inr [word_of_int (v div 2 ^ 24), word_of_int (v div 2 ^ 16),
               word_of_int (v div 2 ^ 8), word_of_int v]
     else Inl StructError)"

fun unpack_be32 :: "bytes \<Rightarrow> exn + int" where
  "unpack_be32 [a, b, c, d] =
     Inr (uint a * 2 ^ 24 + uint b * 2 ^ 16 + uint c * 2 ^ 8 + uint d)"
| "unpack_be32 _ = Inl StructError"

text \<open>Python slices \<open>xs[i:j]\<close> and slice assignment \<open>xs[i:j] = ys\<close> (both clamp).\<close>

definition py_slice :: "'a list \<Rightarrow> nat \<Rightarrow> nat \<Rightarrow> 'a list" where
  "py_slice xs i j = take (j - i) (drop i xs)"

definition py_slice_assign :: "'a list \<Rightarrow> nat \<Rightarrow> nat \<Rightarrow> 'a list \<Rightarrow> 'a list" where
  "py_slice_assign xs i j ys = take i xs @ ys @ drop (max i j) xs"

text \<open>\<open>header[i] = v\<close> on the 16-byte \<open>bytearray\<close> (the index is a constant in range).\<close>

definition set_byte :: "bytes \<Rightarrow> nat \<Rightarrow> int \<Rightarrow> exn + bytes" where
  "set_byte h i v = bind_exn (byte_of_int v) (\<lambda>b. Inr (h[i := b]))"

section \<open>Constants of \<open>mesh_node.py\<close>\<close>

definition MESH_VERSION :: int where "MESH_VERSION = 1"
definition MESH_MSG_DATA :: int where "MESH_MSG_DATA = 0"
definition MESH_MSG_OGM :: int where "MESH_MSG_OGM = 1"
definition MESH_FLAG_COMPRESSED :: int where "MESH_FLAG_COMPRESSED = 1"
definition MESH_FLAG_ENCRYPTED :: int where "MESH_FLAG_ENCRYPTED = 2"

section \<open>Mesh header encode and decode\<close>

definition build_mesh_header :: "int \<Rightarrow> int \<Rightarrow> int \<Rightarrow> bytes \<Rightarrow> int \<Rightarrow> exn + bytes" where
  "build_mesh_header msg_type flags ttl origin_id seqno =
     bind_exn (set_byte (replicate 16 0) 0 MESH_VERSION) (\<lambda>h0.
     bind_exn (set_byte h0 1 msg_type) (\<lambda>h1.
     bind_exn (set_byte h1 2 flags) (\<lambda>h2.
     bind_exn (set_byte h2 3 ttl) (\<lambda>h3.
     bind_exn (pack_be32 seqno) (\<lambda>packed.
       Inr (py_slice_assign (py_slice_assign h3 4 12 origin_id) 12 16 packed))))))"

definition parse_mesh_header :: "bytes \<Rightarrow> exn + (int \<times> int \<times> int \<times> int \<times> bytes \<times> int)" where
  "parse_mesh_header info =
     (if length info < 16 then Inl ValueError
      else bind_exn (unpack_be32 (py_slice info 12 16)) (\<lambda>seqno.
        Inr (uint (info ! 0), uint (info ! 1), uint (info ! 2), uint (info ! 3),
             py_slice info 4 12, seqno)))"

section \<open>Routing state, configuration and collaborators\<close>

record originator_entry =
  best_next_hop :: bytes
  last_seqno :: int
  metric :: int
  last_seen :: real

text \<open>\<open>NeighborEntry\<close>; its fields carry a prefix since \<open>last_seen\<close> is taken.\<close>

record neighbor_entry =
  nb_last_seen :: real
  nb_link_metric :: int

text \<open>
  \<open>MeshEncryptor\<close> of \<open>crypto_layer.py\<close>, which is not among the sources, is a parameter
  of the node, with the interface that \<open>_build_data_payload\<close> and \<open>_handle_data_frame\<close>
  use: \<open>encrypt(plaintext, associated_data)\<close> returns \<open>(nonce, ciphertext)\<close>;
  \<open>decrypt(nonce, ciphertext, associated_data)\<close> returns the plaintext (\<open>Inr\<close>) or raises
  an exception (\<open>Inl\<close>), whose class is left open; \<open>encryption_enabled\<close> is a flag.
\<close>

record mesh_encryptor =
  encryption_enabled :: bool
  encrypt :: "bytes \<Rightarrow> bytes \<Rightarrow> bytes \<times> bytes"
  decrypt :: "bytes \<Rightarrow> bytes \<Rightarrow> bytes \<Rightarrow> exn + bytes"

text \<open>
  What a \<open>MeshNode\<close> is built from and never changes. \<open>ax25_dest_addr\<close> and
  \<open>ax25_src_addr\<close> are the 7-byte results of \<open>_encode_ax25_address\<close> on the two configured
  callsigns (a function of the configuration alone). \<open>zlib_compress\<close> and
  \<open>zlib_decompress\<close> are the library's \<open>zlib.compress\<close> and \<open>zlib.decompress\<close>, the latter
  \<open>None\<close> where it raises \<open>zlib.error\<close>. The application callback returns \<open>None\<close> when it
  returns and \<open>Some e\<close> when it raises \<open>e\<close>.
\<close>

record mesh_node =
  node_id :: bytes
  ax25_dest_addr :: bytes
  ax25_src_addr :: bytes
  ogm_ttl :: int
  route_expiry_seconds :: real
  neighbor_expiry_seconds :: real
  data_seen_expiry :: real
  encryptor :: mesh_encryptor
  zlib_compress :: "bytes \<Rightarrow> bytes"
  zlib_decompress :: "bytes \<Rightarrow> bytes option"
  app_data_callback :: "(bytes \<Rightarrow> bytes \<Rightarrow> int \<Rightarrow> bytes \<Rightarrow> exn option) option"

datatype log_level = INFO | WARNING

text \<open>
  The locks that the threads of a node take, the shared tables of \<open>MeshNode\<close>, and the
  actions a thread performs on them, recorded in program order: \<open>with lock:\<close> is
  \<open>Acquire\<close> at entry and \<open>Release\<close> at every exit of the block; a dictionary lookup,
  store, field update, scan (\<open>.items()\<close> in a comprehension) or deletion loop is an
  \<open>Access\<close>. \<open>DataSeenLock\<close> is \<open>MeshNode._data_seen_lock\<close>, \<open>SeqnoLock\<close> is
  \<open>MeshNode._seqno_lock\<close>, and \<open>KissLock\<close> is \<open>KISSClient._lock\<close>, which the RX worker
  holds around \<open>self._kiss_iface.read(callback=...)\<close> and so around every run of the RX
  callback.
\<close>

datatype lock = DataSeenLock | SeqnoLock | KissLock

datatype resource = Originators | Neighbors | DataSeen | SeqnoCounter

datatype access_kind = Lookup | Store | Scan | Delete_dead

datatype action = Acquire lock | Release lock | Access access_kind resource

text \<open>
  The mutable state: the two routing tables, the dedup cache, the sequence counter, the
  KISS client's running flag and the frames handed to its TX queue (oldest first), and,
  as observations, the application callback's invocations, the log records and the
  lock and table actions performed so far.
  \<open>KISSClient.send\<close> blocks while the bounded queue is full and the TX worker drains it;
  the queue is not bounded here.
\<close>

record node_state =
  originators :: "bytes \<rightharpoonup> originator_entry"
  neighbors :: "bytes \<rightharpoonup> neighbor_entry"
  data_seen :: "(bytes \<times> int) \<rightharpoonup> real"
  seqno_counter :: int
  kiss_running :: bool
  tx_queue :: "bytes list"
  delivered :: "(bytes \<times> bytes \<times> int \<times> bytes) list"
  log_records :: "(log_level \<times> string) list"
  sync_trace :: "action list"

datatype outcome = Returned | Raised exn

definition log_msg :: "log_level \<Rightarrow> string \<Rightarrow> node_state \<Rightarrow> node_state" where
  "log_msg lvl msg st = st\<lparr>log_records := log_records st @ [(lvl, msg)]\<rparr>"

definition act :: "action list \<Rightarrow> node_state \<Rightarrow> node_state" where
  "act as st = st\<lparr>sync_trace := sync_trace st @ as\<rparr>"

definition kiss_send :: "node_state \<Rightarrow> bytes \<Rightarrow> outcome \<times> node_state" where
  "kiss_send st frame =
     (if \<not> kiss_running st then (Raised KISSClientError, st)
      else (Returned, st\<lparr>tx_queue := tx_queue st @ [frame]\<rparr>))"

definition next_seqno :: "node_state \<Rightarrow> int \<times> node_state" where
  "next_seqno st =
     (let s = (seqno_counter st + 1) AND 0xFFFFFFFF
      in (s, act [Acquire SeqnoLock, Access Lookup SeqnoCounter, Access Store SeqnoCounter,
                  Release SeqnoLock] (st\<lparr>seqno_counter := s\<rparr>)))"

definition wrap_in_ax25_ui :: "mesh_node \<Rightarrow> bytes \<Rightarrow> bytes" where
  "wrap_in_ax25_ui n info_payload =
     ax25_dest_addr n @ ax25_src_addr n @ [0x03] @ [0xF0] @ info_payload"

section \<open>OGM construction and handling\<close>

definition build_ogm_payload :: "mesh_node \<Rightarrow> node_state \<Rightarrow> (exn + bytes) \<times> node_state" where
  "build_ogm_payload n st =
     (let (seqno, st') = next_seqno st
      in (bind_exn (build_mesh_header MESH_MSG_OGM 0 (ogm_ttl n) (node_id n) seqno)
            (\<lambda>mesh_header. bind_exn (byte_of_int 255)
               (\<lambda>b. Inr (mesh_header @ (node_id n @ [b])))), st'))"

definition update_neighbors :: "node_state \<Rightarrow> real \<Rightarrow> bytes \<Rightarrow> int \<Rightarrow> node_state" where
  "update_neighbors st now prev_hop_id lm =
     (case neighbors st prev_hop_id of
        None \<Rightarrow> act [Access Lookup Neighbors, Access Store Neighbors]
                 (st\<lparr>neighbors := (neighbors st)(prev_hop_id \<mapsto>
                    \<lparr>nb_last_seen = now, nb_link_metric = lm\<rparr>)\<rparr>)
      | Some nei \<Rightarrow> act [Access Lookup Neighbors, Access Store Neighbors]
                 (st\<lparr>neighbors := (neighbors st)(prev_hop_id \<mapsto>
                    nei\<lparr>nb_last_seen := now, nb_link_metric := lm\<rparr>)\<rparr>))"

definition update_originators ::
  "node_state \<Rightarrow> real \<Rightarrow> bytes \<Rightarrow> int \<Rightarrow> bytes \<Rightarrow> int \<Rightarrow> node_state" where
  "update_originators st now origin_id seqno prev_hop_id lm =
     (case originators st origin_id of
        None \<Rightarrow> act [Access Lookup Originators, Access Store Originators]
                 (st\<lparr>originators := (originators st)(origin_id \<mapsto>
                    \<lparr>best_next_hop = prev_hop_id, last_seqno = seqno,
                     metric = lm, last_seen = now\<rparr>)\<rparr>)
      | Some entry \<Rightarrow>
          if seqno > last_seqno entry
          then act [Access Lookup Originators, Access Store Originators]
                 (st\<lparr>originators := (originators st)(origin_id \<mapsto>
                    entry\<lparr>best_next_hop := prev_hop_id, last_seqno := seqno,
                          metric := lm, last_seen := now\<rparr>)\<rparr>)
          else act [Access Lookup Originators] st)"

definition handle_ogm ::
  "mesh_node \<Rightarrow> node_state \<Rightarrow> real \<Rightarrow> bytes \<Rightarrow> int \<Rightarrow> int \<Rightarrow> bytes \<Rightarrow> int
     \<Rightarrow> outcome \<times> node_state" where
  "handle_ogm n st now origin_id seqno ttl prev_hop_id lm =
     (let st1 = update_neighbors st now prev_hop_id lm;
          st2 = update_originators st1 now origin_id seqno prev_hop_id lm
      in if ttl > 1
         then (case build_mesh_header MESH_MSG_OGM 0 (ttl - 1) origin_id seqno of
                 Inl e \<Rightarrow> (Raised e, st2)
               | Inr mesh_header \<Rightarrow>
                   (case byte_of_int lm of
                      Inl e \<Rightarrow> (Raised e, st2)
                    | Inr b \<Rightarrow>
                        kiss_send st2 (wrap_in_ax25_ui n (mesh_header @ (node_id n @ [b])))))
         else (Returned, st2))"

section \<open>DATA construction and handling\<close>

definition build_data_payload :: "mesh_node \<Rightarrow> bytes \<Rightarrow> int \<Rightarrow> bytes \<Rightarrow> exn + bytes" where
  "build_data_payload n dest_id data_seqno app_payload =
     (let compressed = zlib_compress n app_payload;
          (payload_to_send, flags) =
             (if length compressed < length app_payload
              then (compressed, 0 OR MESH_FLAG_COMPRESSED)
              else (app_payload, 0))
      in bind_exn (pack_be32 data_seqno) (\<lambda>seq4.
         let associated_data = node_id n @ dest_id @ seq4;
             (flags', body) =
               (if encryption_enabled (encryptor n)
                then (let (nonce, ciphertext) =
                            encrypt (encryptor n) payload_to_send associated_data
                      in (flags OR MESH_FLAG_ENCRYPTED, dest_id @ seq4 @ nonce @ ciphertext))
                else (flags, dest_id @ seq4 @ payload_to_send))
         in bind_exn (build_mesh_header MESH_MSG_DATA flags' (ogm_ttl n) (node_id n) data_seqno)
              (\<lambda>mesh_header. Inr (mesh_header @ body))))"

definition send_application_data ::
  "mesh_node \<Rightarrow> node_state \<Rightarrow> bytes \<Rightarrow> bytes \<Rightarrow> outcome \<times> node_state" where
  "send_application_data n st dest_node_id payload =
     (if length dest_node_id \<noteq> 8 then (Raised ValueError, st)
      else let (seqno, st') = next_seqno st
           in case build_data_payload n dest_node_id seqno payload of
                Inl e \<Rightarrow> (Raised e, st')
              | Inr mesh_payload \<Rightarrow> kiss_send st' (wrap_in_ax25_ui n mesh_payload))"

definition lookup_best_next_hop :: "node_state \<Rightarrow> bytes \<Rightarrow> bytes option" where
  "lookup_best_next_hop st dest_id =
     (case originators st dest_id of None \<Rightarrow> None | Some entry \<Rightarrow> Some (best_next_hop entry))"

text \<open>The tail of \<open>_handle_data_frame\<close> under its comment "Delivery or forwarding".\<close>

definition deliver_or_forward ::
  "mesh_node \<Rightarrow> node_state \<Rightarrow> bytes \<Rightarrow> int \<Rightarrow> int \<Rightarrow> int \<Rightarrow> bytes \<Rightarrow> bytes \<Rightarrow> int \<Rightarrow> bytes
     \<Rightarrow> outcome \<times> node_state" where
  "deliver_or_forward n st origin_id seqno ttl flags body dest_id data_seq app_bytes =
     (if dest_id = node_id n
      then (case app_data_callback n of
              Some cb \<Rightarrow>
                (let st' = st\<lparr>delivered := delivered st @ [(origin_id, dest_id, data_seq, app_bytes)]\<rparr>
                 in case cb origin_id dest_id data_seq app_bytes of
                      None \<Rightarrow> (Returned, st')
                    | Some e \<Rightarrow> (Raised e, st'))
            | None \<Rightarrow> (Returned, log_msg INFO ''DATA delivered from origin %s seq %d: %r'' st))
      else if ttl \<le> 1 then (Returned, st)
      else (let st' = act [Access Lookup Originators] st
            in case lookup_best_next_hop st dest_id of
              None \<Rightarrow> (Returned, st')
            | Some next_hop \<Rightarrow>
                (case build_mesh_header MESH_MSG_DATA flags (ttl - 1) origin_id seqno of
                   Inl e \<Rightarrow> (Raised e, st')
                 | Inr mesh_header \<Rightarrow> kiss_send st' (wrap_in_ax25_ui n (mesh_header @ body)))))"

text \<open>The decompression step of \<open>_handle_data_frame\<close> and what follows it.\<close>

definition decompress_then_route ::
  "mesh_node \<Rightarrow> node_state \<Rightarrow> bytes \<Rightarrow> int \<Rightarrow> int \<Rightarrow> int \<Rightarrow> bytes \<Rightarrow> bytes \<Rightarrow> int \<Rightarrow> bytes
     \<Rightarrow> outcome \<times> node_state" where
  "decompress_then_route n st origin_id seqno ttl flags body dest_id data_seq app_bytes =
     (if flags AND MESH_FLAG_COMPRESSED \<noteq> 0
      then (case zlib_decompress n app_bytes of
              None \<Rightarrow> (Returned, log_msg WARNING ''Failed to decompress payload; dropping DATA'' st)
            | Some app_bytes' \<Rightarrow>
                deliver_or_forward n st origin_id seqno ttl flags body dest_id data_seq app_bytes')
      else deliver_or_forward n st origin_id seqno ttl flags body dest_id data_seq app_bytes)"

text \<open>\<open>_handle_data_frame\<close> after the dedup gate (its comment "Continue parsing").\<close>

definition continue_parsing ::
  "mesh_node \<Rightarrow> node_state \<Rightarrow> bytes \<Rightarrow> int \<Rightarrow> int \<Rightarrow> int \<Rightarrow> bytes \<Rightarrow> outcome \<times> node_state" where
  "continue_parsing n st origin_id seqno ttl flags body =
     (if length body < 12 then (Returned, st)
      else
        let dest_id = py_slice body 0 8 in
        case unpack_be32 (py_slice body 8 12) of
          Inl e \<Rightarrow> (Raised e, st)
        | Inr data_seq \<Rightarrow>
            let remainder = drop 12 body in
            (case pack_be32 data_seq of
               Inl e \<Rightarrow> (Raised e, st)
             | Inr seq4 \<Rightarrow>
                 let associated_data = origin_id @ dest_id @ seq4 in
                 if flags AND MESH_FLAG_ENCRYPTED \<noteq> 0
                 then (if length remainder < 13 then (Returned, st)
                       else
                         let nonce = py_slice remainder 0 12;
                             ciphertext = drop 12 remainder
                         in case decrypt (encryptor n) nonce ciphertext associated_data of
                              Inl e \<Rightarrow> (Raised e, st)
                            | Inr decrypted \<Rightarrow>
                                decompress_then_route n st origin_id seqno ttl flags body
                                  dest_id data_seq decrypted)
                 else decompress_then_route n st origin_id seqno ttl flags body
                        dest_id data_seq remainder))"

definition handle_data_frame ::
  "mesh_node \<Rightarrow> node_state \<Rightarrow> real \<Rightarrow> bytes \<Rightarrow> int \<Rightarrow> int \<Rightarrow> int \<Rightarrow> bytes \<Rightarrow> outcome \<times> node_state" where
  "handle_data_frame n st now origin_id seqno ttl flags body =
     (let key = (origin_id, seqno) in
      if key \<in> dom (data_seen st)
      then (Returned, act [Acquire DataSeenLock, Access Lookup DataSeen, Release DataSeenLock] st)
      else continue_parsing n
             (act [Acquire DataSeenLock, Access Lookup DataSeen, Access Store DataSeen,
                   Release DataSeenLock]
                (st\<lparr>data_seen := (data_seen st)(key \<mapsto> now)\<rparr>))
             origin_id seqno ttl flags body)"

section \<open>KISS RX\<close>

definition find_info_start :: "bytes \<Rightarrow> nat option" where
  "find_info_start frame = (if length frame \<le> 16 then None else Some 16)"

definition on_kiss_frame :: "mesh_node \<Rightarrow> node_state \<Rightarrow> real \<Rightarrow> bytes \<Rightarrow> outcome \<times> node_state" where
  "on_kiss_frame n st now frame =
     (if length frame \<le> 16 then (Returned, st)
      else case find_info_start frame of
        None \<Rightarrow> (Returned, st)
      | Some info_start \<Rightarrow>
          let info = drop info_start frame in
          (case parse_mesh_header info of
             Inl e \<Rightarrow> (if isinstance_ValueError e then (Returned, st) else (Raised e, st))
           | Inr (version, msg_type, flags, ttl, origin_id, seqno) \<Rightarrow>
               if version \<noteq> MESH_VERSION then (Returned, st)
               else
                 let body = drop 16 info in
                 if msg_type = MESH_MSG_OGM
                 then (if length body < 9 then (Returned, st)
                       else handle_ogm n st now origin_id seqno ttl
                              (py_slice body 0 8) (uint (body ! 8)))
                 else if msg_type = MESH_MSG_DATA
                 then handle_data_frame n st now origin_id seqno ttl flags body
                 else (Returned, st)))"

text \<open>
  \<open>KISSClient._handle_rx_frame\<close> of \<open>kiss_link.py\<close>: the wrapper around the user callback
  that the RX worker runs for each frame.
\<close>

definition handle_rx_frame ::
  "(node_state \<Rightarrow> bytes \<Rightarrow> outcome \<times> node_state) \<Rightarrow> node_state \<Rightarrow> bytes
     \<Rightarrow> outcome \<times> node_state" where
  "handle_rx_frame rx_callback st frame =
     (case rx_callback st frame of
        (Returned, st') \<Rightarrow> (Returned, st')
      | (Raised e, st') \<Rightarrow>
          if isinstance_ValueError e
          then (Returned, log_msg WARNING ''Value error in RX callback; frame dropped'' st')
          else (Raised e, st'))"

text \<open>
  One frame through the RX worker, \<open>KISSClient._rx_loop\<close>: the worker takes
  \<open>self._lock\<close>, and \<open>self._kiss_iface.read(callback=_rx_callback_wrapper)\<close> inside the
  \<open>with\<close> block hands the frame to \<open>_handle_rx_frame\<close>, whose user callback is
  \<open>MeshNode._on_kiss_frame\<close> (as \<open>MeshNode.__init__\<close> wires it through the client
  factory). The lock is released when the block is left, also by an exception that
  \<open>_handle_rx_frame\<close> lets through.
\<close>

definition rx_frame :: "mesh_node \<Rightarrow> node_state \<Rightarrow> real \<Rightarrow> bytes \<Rightarrow> outcome \<times> node_state" where
  "rx_frame n st now frame =
     (case handle_rx_frame (\<lambda>s f. on_kiss_frame n s now f) (act [Acquire KissLock] st) frame of
        (r, st') \<Rightarrow> (r, act [Release KissLock] st'))"

section \<open>Background loops\<close>

text \<open>One pass of the body of the loop of \<open>_ogm_loop\<close> (before its sleep).\<close>

definition ogm_iteration :: "mesh_node \<Rightarrow> node_state \<Rightarrow> outcome \<times> node_state" where
  "ogm_iteration n st =
     (let (payload, st') = build_ogm_payload n st
      in case payload of
           Inl e \<Rightarrow> (Raised e, st')
         | Inr p \<Rightarrow> kiss_send st' (wrap_in_ax25_ui n p))"

text \<open>Deleting from a dict every key whose value is dead.\<close>

definition evict :: "('k \<rightharpoonup> 'v) \<Rightarrow> ('v \<Rightarrow> bool) \<Rightarrow> ('k \<rightharpoonup> 'v)" where
  "evict m dead = (\<lambda>k. case m k of None \<Rightarrow> None | Some v \<Rightarrow> if dead v then None else Some v)"

text \<open>One pass of the body of the loop of \<open>_cleanup_loop\<close> (before its sleep), at time
  \<open>now\<close>: for each table the comprehension that collects the dead keys, then the loop
  that deletes them; only the last deletion loop is inside \<open>with self._data_seen_lock\<close>.\<close>

definition cleanup_iteration :: "mesh_node \<Rightarrow> node_state \<Rightarrow> real \<Rightarrow> node_state" where
  "cleanup_iteration n st now =
     act [Access Scan Originators, Access Delete_dead Originators,
          Access Scan Neighbors, Access Delete_dead Neighbors,
          Access Scan DataSeen,
          Acquire DataSeenLock, Access Delete_dead DataSeen, Release DataSeenLock]
       (st\<lparr>originators := evict (originators st) (\<lambda>entry. now - last_seen entry > route_expiry_seconds n),
           neighbors := evict (neighbors st) (\<lambda>entry. now - nb_last_seen entry > neighbor_expiry_seconds n),
           data_seen := evict (data_seen st) (\<lambda>ts. now - ts > data_seen_expiry n)\<rparr>)"

section \<open>The node as a state machine\<close>

text \<open>What can happen to a running node: the RX worker hands over a frame, the cleanup
  or the OGM loop makes a pass, the application sends. Each carries the clock reading
  the operation takes.\<close>

datatype event =
    RxFrame real bytes
  | CleanupTick real
  | OgmTick
  | AppSend bytes bytes

fun node_step :: "mesh_node \<Rightarrow> node_state \<Rightarrow> event \<Rightarrow> node_state" where
  "node_step n st (RxFrame now frame) = snd (rx_frame n st now frame)"
| "node_step n st (CleanupTick now) = cleanup_iteration n st now"
| "node_step n st OgmTick = snd (ogm_iteration n st)"
| "node_step n st (AppSend dest payload) = snd (send_application_data n st dest payload)"

definition run :: "mesh_node \<Rightarrow> node_state \<Rightarrow> event list \<Rightarrow> node_state" where
  "run n st evs = foldl (node_step n) st evs"

text \<open>Processing a list of OGMs \<open>(now, origin_id, seqno, ttl, prev_hop_id, link_metric)\<close>
  in order.\<close>

fun handle_ogms ::
  "mesh_node \<Rightarrow> node_state \<Rightarrow> (real \<times> bytes \<times> int \<times> int \<times> bytes \<times> int) list \<Rightarrow> node_state" where
  "handle_ogms n st [] = st"
| "handle_ogms n st ((now, origin_id, seqno, ttl, prev_hop_id, lm) # ogms) =
     handle_ogms n (snd (handle_ogm n st now origin_id seqno ttl prev_hop_id lm)) ogms"

section \<open>Lock discipline over a trace of actions\<close>

text \<open>\<open>locked_accesses l r K H as\<close>: starting with the locks \<open>H\<close> held, every access to \<open>r\<close>
  of a kind in \<open>K\<close> in \<open>as\<close> is made while \<open>l\<close> is held.\<close>

fun locked_accesses :: "lock \<Rightarrow> resource \<Rightarrow> access_kind set \<Rightarrow> lock set \<Rightarrow> action list \<Rightarrow> bool" where
  "locked_accesses l r K H [] = True"
| "locked_accesses l r K H (Acquire l' # as) = locked_accesses l r K (insert l' H) as"
| "locked_accesses l r K H (Release l' # as) = locked_accesses l r K (H - {l'}) as"
| "locked_accesses l r K H (Access k r' # as) =
     ((if r' = r \<and> k \<in> K then l \<in> H else True) \<and> locked_accesses l r K H as)"

text \<open>\<open>lock_free_accesses r H as\<close>: every access to \<open>r\<close> in \<open>as\<close> is made with no lock held.\<close>

fun lock_free_accesses :: "resource \<Rightarrow> lock set \<Rightarrow> action list \<Rightarrow> bool" where
  "lock_free_accesses r H [] = True"
| "lock_free_accesses r H (Acquire l' # as) = lock_free_accesses r (insert l' H) as"
| "lock_free_accesses r H (Release l' # as) = lock_free_accesses r (H - {l'}) as"
| "lock_free_accesses r H (Access k r' # as) =
     ((if r' = r then H = {} else True) \<and> lock_free_accesses r H as)"

fun held_after :: "lock set \<Rightarrow> action list \<Rightarrow> lock set" where
  "held_after H [] = H"
| "held_after H (Acquire l # as) = held_after (insert l H) as"
| "held_after H (Release l # as) = held_after (H - {l}) as"
| "held_after H (Access k r # as) = held_after H as"

definition all_kinds :: "access_kind set" where
  "all_kinds = {Lookup, Store, Scan, Delete_dead}"

section \<open>Reconnect with backoff (\<open>kiss_link.py\<close>)\<close>

text \<open>The two fields of \<open>KISSConnectionConfig\<close> that \<open>_connect_with_backoff\<close> reads.\<close>

record kiss_connection_config =
  reconnect_base_delay :: real
  reconnect_max_delay :: real

text \<open>What one pass of the loop of \<open>_connect_with_backoff\<close> meets: the interface starts
  (\<open>Established\<close>) or raises \<open>OSError\<close>. The list of attempts ends where \<open>_running\<close> is
  found cleared. The result is the list of the \<open>time.sleep(delay)\<close> arguments, in order.\<close>

datatype attempt = Established | OSError_raised

fun backoff_loop :: "kiss_connection_config \<Rightarrow> real \<Rightarrow> attempt list \<Rightarrow> real list" where
  "backoff_loop c delay [] = []"
| "backoff_loop c delay (Established # as) = []"
| "backoff_loop c delay (OSError_raised # as) =
     delay # backoff_loop c (if delay < reconnect_max_delay c then delay * 2.0 else delay) as"

definition connect_with_backoff :: "kiss_connection_config \<Rightarrow> attempt list \<Rightarrow> real list" where
  "connect_with_backoff c attempts = backoff_loop c (reconnect_base_delay c) attempts"

section \<open>A concrete node for the examples\<close>

text \<open>Node B (callsign \<open>B\<close>) with neighbours A and C; the AX.25 addresses are those of
  \<open>QMESH-0\<close> and \<open>B\<close>. The compressor, decompressor and encryptor of the examples are small
  stand-ins with the interface of the real ones: the decompressor rejects the empty
  string (as \<open>zlib.decompress\<close> does) and otherwise drops a one-byte prefix; the
  compressor squeezes a run of equal bytes into three bytes; the decryptor accepts
  exactly the ciphertext \<open>[0xAA]\<close> and raises a \<open>ValueError\<close> on any other.\<close>

definition id_A :: bytes where "id_A = [0x41, 0, 0, 0, 0, 0, 0, 0]"
definition id_B :: bytes where "id_B = [0x42, 0, 0, 0, 0, 0, 0, 0]"
definition id_C :: bytes where "id_C = [0x43, 0, 0, 0, 0, 0, 0, 0]"

definition example_compress :: "bytes \<Rightarrow> bytes" where
  "example_compress p =
     (case p of [] \<Rightarrow> [0x78]
      | b # bs \<Rightarrow> if list_all (\<lambda>x. x = b) bs then [0x78, b, word_of_nat (length p)]
                  else 0x78 # p)"

definition example_decompress :: "bytes \<Rightarrow> bytes option" where
  "example_decompress c = (case c of [] \<Rightarrow> None | b # bs \<Rightarrow> Some bs)"

definition example_encryptor :: mesh_encryptor where
  "example_encryptor =
     \<lparr>encryption_enabled = False,
      encrypt = (\<lambda>p aad. (replicate 12 0, [0xAA])),
      decrypt = (\<lambda>nonce c aad. if c = [0xAA] then Inr [0x68, 0x69] else Inl ValueError)\<rparr>"

definition node_B :: mesh_node where
  "node_B =
     \<lparr>node_id = id_B,
      ax25_dest_addr = [0xA2, 0x9A, 0x8A, 0xA6, 0x90, 0x40, 0x60],
      ax25_src_addr = [0x84, 0x40, 0x40, 0x40, 0x40, 0x40, 0x61],
      ogm_ttl = 5,
      route_expiry_seconds = 120,
      neighbor_expiry_seconds = 60,
      data_seen_expiry = 30,
      encryptor = example_encryptor,
      zlib_compress = example_compress,
      zlib_decompress = example_decompress,
      app_data_callback = Some (\<lambda>origin_id dest_id data_seq payload. None)\<rparr>"


definition initial_state :: node_state where
  "initial_state =
     \<lparr>originators = Map.empty, neighbors = Map.empty, data_seen = Map.empty,
      seqno_counter = 0, kiss_running = True, tx_queue = [], delivered = [],
      log_records = [], sync_trace = []\<rparr>"

text \<open>Node B once it has heard an OGM of C (sequence number 9) directly from C.\<close>

definition entry_C :: originator_entry where
  "entry_C = \<lparr>best_next_hop = id_C, last_seqno = 9, metric = 255, last_seen = 0\<rparr>"

definition state_with_route :: node_state where
  "state_with_route = initial_state\<lparr>originators := [id_C \<mapsto> entry_C]\<rparr>"

text \<open>A DATA frame of origin A with sequence number 7 as the KISS link delivers it: the
  16 bytes of AX.25 addresses, control and PID, the mesh header, and the body made of
  the destination, the sequence number and the payload bytes.\<close>

definition ax25_prefix :: bytes where
  "ax25_prefix = [0xA2, 0x9A, 0x8A, 0xA6, 0x90, 0x40, 0x60,
                  0x82, 0x40, 0x40, 0x40, 0x40, 0x40, 0x61, 0x03, 0xF0]"

definition data_frame :: "byte \<Rightarrow> byte \<Rightarrow> bytes \<Rightarrow> bytes \<Rightarrow> bytes" where
  "data_frame flags ttl dest payload =
     ax25_prefix @ [1, 0, flags, ttl] @ id_A @ [0, 0, 0, 7] @ dest @ [0, 0, 0, 7] @ payload"

section \<open>Auxiliary definitions\<close>

text \<open>The payload and the flags that \<open>_build_data_payload\<close> settles on.\<close>

definition chosen_payload :: "mesh_node \<Rightarrow> bytes \<Rightarrow> bytes" where
  "chosen_payload n p = (if length (zlib_compress n p) < length p then zlib_compress n p else p)"

definition chosen_flags :: "mesh_node \<Rightarrow> bytes \<Rightarrow> int" where
  "chosen_flags n p =
     (if length (zlib_compress n p) < length p then 1 else 0)
       + (if encryption_enabled (encryptor n) then 2 else 0)"

text \<open>The application bytes that the decryption and decompression steps of
  \<open>_handle_data_frame\<close> arrive at for a body, \<open>None\<close> where one of them (or a length check
  before them) stops the frame.\<close>

definition accepted_payload :: "mesh_node \<Rightarrow> bytes \<Rightarrow> int \<Rightarrow> bytes \<Rightarrow> bytes option" where
  "accepted_payload n origin_id flags body =
     (if length body < 12 then None
      else case unpack_be32 (py_slice body 8 12) of
        Inl e \<Rightarrow> None
      | Inr data_seq \<Rightarrow>
          (case pack_be32 data_seq of
             Inl e \<Rightarrow> None
           | Inr seq4 \<Rightarrow>
               (case (if flags AND MESH_FLAG_ENCRYPTED \<noteq> 0
                      then (if length (drop 12 body) < 13 then None
                            else (case decrypt (encryptor n) (py_slice (drop 12 body) 0 12)
                                         (drop 12 (drop 12 body))
                                         (origin_id @ py_slice body 0 8 @ seq4) of
                                    Inl e \<Rightarrow> None
                                  | Inr decrypted \<Rightarrow> Some decrypted))
                      else Some (drop 12 body)) of
                  None \<Rightarrow> None
                | Some app_bytes \<Rightarrow>
                    if flags AND MESH_FLAG_COMPRESSED \<noteq> 0 then zlib_decompress n app_bytes
                    else Some app_bytes)))"

text \<open>Two states agree on the tables, the running flag and the sequence counter.\<close>

definition same_tables :: "node_state \<Rightarrow> node_state \<Rightarrow> bool" where
  "same_tables st st' \<longleftrightarrow>
     originators st' = originators st \<and> neighbors st' = neighbors st
   \<and> data_seen st' = data_seen st \<and> kiss_running st' = kiss_running st
   \<and> seqno_counter st' = seqno_counter st"

text \<open>Every cleanup pass in a list of events runs while an entry stamped \<open>ts\<close> is not yet
  expired (the pass evicts when \<open>now - ts > data_seen_expiry\<close>).\<close>

fun cleanups_before_expiry :: "mesh_node \<Rightarrow> real \<Rightarrow> event list \<Rightarrow> bool" where
  "cleanups_before_expiry n ts [] = True"
| "cleanups_before_expiry n ts (CleanupTick now # evs) =
     (now - ts \<le> data_seen_expiry n \<and> cleanups_before_expiry n ts evs)"
| "cleanups_before_expiry n ts (ev # evs) = cleanups_before_expiry n ts evs"

text \<open>The actions of the RX worker for a DATA frame that stops at the dedup gate.\<close>

definition gate_drop :: "node_state \<Rightarrow> node_state" where
  "gate_drop st = act [Acquire KissLock,
                       Acquire DataSeenLock, Access Lookup DataSeen, Release DataSeenLock,
                       Release KissLock] st"

text \<open>The lists of actions that the RX callback can append to the trace for one frame:
  none; a DATA frame stopped at the dedup gate; a DATA frame past the gate, without and
  with the route lookup of the forwarding branch; an OGM, without and with the store
  into the originator table. The RX worker runs the callback between \<open>Acquire KissLock\<close>
  and \<open>Release KissLock\<close>. The other threads append the actions of a sequence number
  allocation or of a cleanup pass.\<close>

definition gate_insert_actions :: "action list" where
  "gate_insert_actions = [Acquire DataSeenLock, Access Lookup DataSeen, Access Store DataSeen,
                          Release DataSeenLock]"

definition ogm_actions :: "action list" where
  "ogm_actions = [Access Lookup Neighbors, Access Store Neighbors, Access Lookup Originators]"

definition cleanup_actions :: "action list" where
  "cleanup_actions = [Access Scan Originators, Access Delete_dead Originators,
                      Access Scan Neighbors, Access Delete_dead Neighbors,
                      Access Scan DataSeen,
                      Acquire DataSeenLock, Access Delete_dead DataSeen, Release DataSeenLock]"

definition rx_callback_action_lists :: "action list set" where
  "rx_callback_action_lists =
     {[],
      [Acquire DataSeenLock, Access Lookup DataSeen, Release DataSeenLock],
      gate_insert_actions,
      gate_insert_actions @ [Access Lookup Originators],
      ogm_actions,
      ogm_actions @ [Access Store Originators]}"

definition seqno_actions :: "action list" where
  "seqno_actions = [Acquire SeqnoLock, Access Lookup SeqnoCounter, Access Store SeqnoCounter,
                    Release SeqnoLock]"

section \<open>Header round trip\<close>

lemma be32_digits:
  fixes v :: int
  assumes "0 \<le> v" "v < 2 ^ 32"
  shows "(v div 2 ^ 24) mod 256 * 2 ^ 24 + (v div 2 ^ 16) mod 256 * 2 ^ 16
         + (v div 2 ^ 8) mod 256 * 2 ^ 8 + v mod 256 = v"
proof -
  define a where "a = v div 256"
  define b where "b = a div 256"
  define c where "c = b div 256"
  have v: "v mod 256 = v - a * 256" unfolding a_def by (simp add: minus_div_mult_eq_mod)
  have a: "a mod 256 = a - b * 256" unfolding b_def by (simp add: minus_div_mult_eq_mod)
  have b: "b mod 256 = b - c * 256" unfolding c_def by (simp add: minus_div_mult_eq_mod)
  have d8: "v div 2 ^ 8 = a" by (simp add: a_def)
  have d16: "v div 2 ^ 16 = b" by (simp add: a_def b_def div_mult2_eq [symmetric])
  have d24: "v div 2 ^ 24 = c" by (simp add: a_def b_def c_def div_mult2_eq [symmetric])
  have c_ge: "0 \<le> c" using assms(1) unfolding d24 [symmetric] by simp
  have c_lt: "c < 256" using assms(2) unfolding d24 [symmetric] by simp
  have c: "c mod 256 = c" using c_lt c_ge by simp
  have "c * 2 ^ 24 + (b - c * 256) * 2 ^ 16 + (a - b * 256) * 2 ^ 8 + (v - a * 256) = v"
    by (simp add: algebra_simps)
  then show ?thesis unfolding d8 d16 d24 c v a b .
qed

lemma uint_byte_of_int: "uint (word_of_int x :: byte) = x mod 256"
  by (simp add: uint_word_of_int take_bit_eq_mod)

lemma unpack_be32_bytes:
  "unpack_be32 [word_of_int a, word_of_int b, word_of_int c, word_of_int d]
     = Inr (a mod 256 * 2 ^ 24 + b mod 256 * 2 ^ 16 + c mod 256 * 2 ^ 8 + d mod 256)"
  unfolding unpack_be32.simps uint_byte_of_int ..

lemma unpack_pack_be32:
  assumes "0 \<le> v" "v < 2 ^ 32" "pack_be32 v = Inr p"
  shows "unpack_be32 p = Inr v \<and> length p = 4"
proof -
  have "pack_be32 v = Inr [word_of_int (v div 2 ^ 24), word_of_int (v div 2 ^ 16),
               word_of_int (v div 2 ^ 8), word_of_int v]"
    unfolding pack_be32_def using assms(1,2) by (simp only: simp_thms if_True)
  with assms(3) have p: "p = [word_of_int (v div 2 ^ 24), word_of_int (v div 2 ^ 16),
               word_of_int (v div 2 ^ 8), word_of_int v]" by simp
  show ?thesis unfolding p
    by (simp only: unpack_be32_bytes be32_digits [OF assms(1,2)] list.size length_Cons) simp
qed

lemma bytearray16_set4:
  "(replicate 16 z)[0 := a, Suc 0 := b, 2 := c, 3 := d] = [a, b, c, d] @ replicate 12 z"
  by (simp add: numeral_eq_Suc)

lemma build_mesh_header_in_range:
  assumes "0 \<le> msg_type" "msg_type < 256" "0 \<le> flags" "flags < 256" "0 \<le> ttl" "ttl < 256"
    and "length origin_id = 8" and "pack_be32 seqno = Inr p" and "length p = 4"
  shows "build_mesh_header msg_type flags ttl origin_id seqno =
           Inr ([1, word_of_int msg_type, word_of_int flags, word_of_int ttl] @ origin_id @ p)"
  using assms
  by (simp add: build_mesh_header_def set_byte_def byte_of_int_def bind_exn_def MESH_VERSION_def
      py_slice_assign_def bytearray16_set4)

lemma parse_mesh_header_layout:
  assumes "length origin_id = 8" and "unpack_be32 p = Inr seqno" and "length p = 4"
  shows "parse_mesh_header ([v, t, f, ttl] @ origin_id @ p) =
           Inr (uint v, uint t, uint f, uint ttl, origin_id, seqno)"
  using assms
  by (simp add: parse_mesh_header_def bind_exn_def py_slice_def nth_append)

lemma uint_byte_small: "0 \<le> x \<Longrightarrow> x < 256 \<Longrightarrow> uint (word_of_int x :: byte) = x"
  by (simp add: uint_byte_of_int)

lemma pack_be32_in_range: "0 \<le> v \<Longrightarrow> v < 2 ^ 32 \<Longrightarrow> \<exists>p. pack_be32 v = Inr p"
  unfolding pack_be32_def by (simp only: simp_thms if_True) (rule exI, rule refl)

lemma build_parse_in_range:
  assumes "0 \<le> msg_type" "msg_type < 256" "0 \<le> flags" "flags < 256" "0 \<le> ttl" "ttl < 256"
    and "length origin_id = 8" and "0 \<le> seqno" "seqno < 2 ^ 32"
  shows "\<exists>h. build_mesh_header msg_type flags ttl origin_id seqno = Inr h \<and> length h = 16
            \<and> parse_mesh_header h = Inr (1, msg_type, flags, ttl, origin_id, seqno)"
proof -
  obtain p where p: "pack_be32 seqno = Inr p" using assms pack_be32_in_range by blast
  with assms have up: "unpack_be32 p = Inr seqno" "length p = 4"
    using unpack_pack_be32 [of seqno p] by simp_all
  let ?h = "[1, word_of_int msg_type, word_of_int flags, word_of_int ttl] @ origin_id @ p"
  have b: "build_mesh_header msg_type flags ttl origin_id seqno = Inr ?h"
    using assms p up(2) by (intro build_mesh_header_in_range) simp_all
  have len: "length ?h = 16" using assms up(2) by simp
  have "parse_mesh_header ?h = Inr (uint (1::byte), uint (word_of_int msg_type :: byte),
          uint (word_of_int flags :: byte), uint (word_of_int ttl :: byte), origin_id, seqno)"
    using assms up by (intro parse_mesh_header_layout) simp_all
  then have "parse_mesh_header ?h = Inr (1, msg_type, flags, ttl, origin_id, seqno)"
    using assms by (simp add: uint_byte_small)
  with b len show ?thesis by blast
qed

lemma build_example:
  "build_mesh_header 0 3 5 [1, 2, 3, 4, 5, 6, 7, 8] 305419896
     = Inr [1, 0, 3, 5, 1, 2, 3, 4, 5, 6, 7, 8, 0x12, 0x34, 0x56, 0x78]"
  by (simp add: build_mesh_header_def set_byte_def byte_of_int_def bind_exn_def MESH_VERSION_def
      py_slice_assign_def pack_be32_def bytearray16_set4)

text \<open>
  C6. For all in-range field values (\<open>msg_type\<close>, \<open>flags\<close>, \<open>ttl\<close> each in [0, 255],
  \<open>origin_id\<close> of exactly 8 bytes, \<open>seqno\<close> in [0, 2^32)), \<open>_build_mesh_header\<close> returns a
  16-byte header, and \<open>_parse_mesh_header\<close> of it returns version 1 together with exactly
  those field values; parsing any input shorter than 16 bytes raises \<open>ValueError\<close>
  (the spec's \<open>Short\<close>).
\<close>

theorem mesh_header_round_trip:
  "(0 \<le> msg_type \<and> msg_type < 256 \<and> 0 \<le> flags \<and> flags < 256 \<and> 0 \<le> ttl \<and> ttl < 256
      \<and> length origin_id = 8 \<and> 0 \<le> seqno \<and> seqno < 2 ^ 32
     \<longrightarrow> (\<exists>h. build_mesh_header msg_type flags ttl origin_id seqno = Inr h \<and> length h = 16
            \<and> parse_mesh_header h = Inr (1, msg_type, flags, ttl, origin_id, seqno)))
   \<and> (length info < 16 \<longrightarrow> parse_mesh_header info = Inl ValueError)"
proof (intro conjI impI)
  assume "0 \<le> msg_type \<and> msg_type < 256 \<and> 0 \<le> flags \<and> flags < 256 \<and> 0 \<le> ttl \<and> ttl < 256
      \<and> length origin_id = 8 \<and> 0 \<le> seqno \<and> seqno < 2 ^ 32"
  then show "\<exists>h. build_mesh_header msg_type flags ttl origin_id seqno = Inr h \<and> length h = 16
            \<and> parse_mesh_header h = Inr (1, msg_type, flags, ttl, origin_id, seqno)"
    by (intro build_parse_in_range) simp_all
next
  assume "length info < 16"
  then show "parse_mesh_header info = Inl ValueError" by (simp add: parse_mesh_header_def)
qed

theorem mesh_header_round_trip_witness:
  "build_mesh_header 0 3 5 [1, 2, 3, 4, 5, 6, 7, 8] 305419896
     = Inr [1, 0, 3, 5, 1, 2, 3, 4, 5, 6, 7, 8, 0x12, 0x34, 0x56, 0x78]
   \<and> parse_mesh_header [1, 0, 3, 5, 1, 2, 3, 4, 5, 6, 7, 8, 0x12, 0x34, 0x56, 0x78]
     = Inr (1, 0, 3, 5, [1, 2, 3, 4, 5, 6, 7, 8], 305419896)
   \<and> parse_mesh_header [1, 0, 3, 5, 1, 2, 3, 4, 5, 6, 7, 8, 0x12, 0x34, 0x56]
     = Inl ValueError"
  using mesh_header_round_trip [of 0 3 5 "[1, 2, 3, 4, 5, 6, 7, 8]" 305419896
      "[1, 0, 3, 5, 1, 2, 3, 4, 5, 6, 7, 8, 0x12, 0x34, 0x56]"] build_example
  by simp



section \<open>Reconnect backoff\<close>

lemma backoff_loop_bounds:
  "0 < b \<Longrightarrow> b \<le> d \<Longrightarrow> d < 2 * reconnect_max_delay c
     \<Longrightarrow> \<forall>s\<in>set (backoff_loop c d as). b \<le> s \<and> s < 2 * reconnect_max_delay c"
proof (induction as arbitrary: d)
  case Nil
  then show ?case by simp
next
  case (Cons a as)
  show ?case
  proof (cases a)
    case Established
    then show ?thesis by simp
  next
    case OSError_raised
    let ?d' = "if d < reconnect_max_delay c then d * 2.0 else d"
    have "b \<le> ?d'" "?d' < 2 * reconnect_max_delay c" using Cons.prems by auto
    from Cons.IH [OF Cons.prems(1) this] show ?thesis
      using OSError_raised Cons.prems by simp
  qed
qed

text \<open>
  What does hold of \<open>_connect_with_backoff\<close>: with a positive base delay not above the
  maximum, every sleep is at least the base delay and below twice the maximum.
\<close>

theorem backoff_sleep_bounds:
  assumes "0 < reconnect_base_delay c" "reconnect_base_delay c \<le> reconnect_max_delay c"
  shows "\<forall>s\<in>set (connect_with_backoff c attempts).
           reconnect_base_delay c \<le> s \<and> s < 2 * reconnect_max_delay c"
  unfolding connect_with_backoff_def
  using assms by (intro backoff_loop_bounds) simp_all

text \<open>
  C8. The claim: every sleep between connection attempts lies between
  \<open>reconnect_base_delay\<close> and \<open>reconnect_max_delay\<close>. With the default configuration
  (5 s and 60 s) and consecutive failures the code sleeps 5, 10, 20, 40 and then 80
  seconds: the delay is doubled whenever it is below the maximum and never clamped to it.
\<close>

theorem backoff_overshoots_max:
  "connect_with_backoff \<lparr>reconnect_base_delay = 5, reconnect_max_delay = 60\<rparr>
     [OSError_raised, OSError_raised, OSError_raised, OSError_raised, OSError_raised, OSError_raised]
     = [5, 10, 20, 40, 80, 80]"
  by (simp add: connect_with_backoff_def)

theorem backoff_sleep_bounds_witness:
  "(0::real) < 5 \<and> (5::real) \<le> 60
   \<and> list_all (\<lambda>s. 5 \<le> s \<and> s < 120) (connect_with_backoff \<lparr>reconnect_base_delay = 5, reconnect_max_delay = 60\<rparr>
     [OSError_raised, OSError_raised, OSError_raised, OSError_raised, OSError_raised])"
  using backoff_sleep_bounds [of "\<lparr>reconnect_base_delay = 5, reconnect_max_delay = 60\<rparr>"
     "[OSError_raised, OSError_raised, OSError_raised, OSError_raised, OSError_raised]"]
  by (simp add: list_all_iff)


section \<open>Originator table\<close>

lemma originators_act [simp]: "originators (act as st) = originators st"
  by (simp add: act_def)

lemma originators_kiss_send [simp]: "originators (snd (kiss_send st frame)) = originators st"
  by (simp add: kiss_send_def)

lemma originators_update_neighbors [simp]:
  "originators (update_neighbors st now ph lm) = originators st"
  by (simp add: update_neighbors_def split: option.splits)

lemma entry_overwrite:
  fixes e :: originator_entry
  shows "e\<lparr>best_next_hop := a, last_seqno := b, metric := c, last_seen := d\<rparr>
           = \<lparr>best_next_hop = a, last_seqno = b, metric = c, last_seen = d\<rparr>"
  by (cases e) simp

lemma originators_update_originators:
  "originators (update_originators st now oid sn ph lm) =
     (case originators st oid of
        None \<Rightarrow> (originators st)(oid \<mapsto>
                  \<lparr>best_next_hop = ph, last_seqno = sn, metric = lm, last_seen = now\<rparr>)
      | Some e \<Rightarrow> if sn > last_seqno e
                  then (originators st)(oid \<mapsto>
                    \<lparr>best_next_hop = ph, last_seqno = sn, metric = lm, last_seen = now\<rparr>)
                  else originators st)"
  by (simp add: update_originators_def entry_overwrite split: option.splits)

lemma originators_handle_ogm:
  "originators (snd (handle_ogm n st now oid sn ttl ph lm)) =
     originators (update_originators st now oid sn ph lm)"
proof -
  have "originators (snd (handle_ogm n st now oid sn ttl ph lm)) =
     originators (update_originators (update_neighbors st now ph lm) now oid sn ph lm)"
    by (simp add: handle_ogm_def Let_def split: sum.splits)
  then show ?thesis
    unfolding originators_update_originators originators_update_neighbors .
qed

lemma handle_ogm_keeps_or_raises:
  assumes "originators st k = Some e"
  shows "\<exists>e'. originators (snd (handle_ogm n st now oid sn ttl ph lm)) k = Some e'
           \<and> last_seqno e \<le> last_seqno e'"
  using assms
  by (auto simp: originators_handle_ogm originators_update_originators split: option.splits)

lemma handle_ogms_monotone:
  "originators st k = Some e \<Longrightarrow>
     \<exists>e'. originators (handle_ogms n st ogms) k = Some e' \<and> last_seqno e \<le> last_seqno e'"
proof (induction ogms arbitrary: st e)
  case Nil
  then show ?case by simp
next
  case (Cons g ogms)
  obtain now oid sn ttl ph lm where g: "g = (now, oid, sn, ttl, ph, lm)"
    by (cases g) auto
  from handle_ogm_keeps_or_raises [OF Cons.prems, of n now oid sn ttl ph lm]
  obtain e1 where e1: "originators (snd (handle_ogm n st now oid sn ttl ph lm)) k = Some e1"
    "last_seqno e \<le> last_seqno e1" by blast
  from Cons.IH [OF e1(1)] obtain e' where
    "originators (handle_ogms n (snd (handle_ogm n st now oid sn ttl ph lm)) ogms) k = Some e'"
    "last_seqno e1 \<le> last_seqno e'" by blast
  with e1(2) show ?case using g by auto
qed

text \<open>
  C5. For every OGM processed by \<open>_handle_ogm\<close>, the originator entry keyed by
  \<open>origin_id\<close> is replaced (next hop, sequence number and metric of the OGM, \<open>last_seen\<close>
  the current time) when the entry is absent or the OGM's \<open>seqno\<close> is strictly greater
  than the stored \<open>last_seqno\<close>; when \<open>seqno\<close> is at most the stored \<open>last_seqno\<close> the
  entry is the same in every field; no other originator entry changes; and over any
  sequence of OGM receptions the stored \<open>last_seqno\<close> of an originator never decreases.
\<close>

theorem ogm_originator_update:
  "originators (snd (handle_ogm n st now oid sn ttl ph lm)) oid =
     (case originators st oid of
        None \<Rightarrow> Some \<lparr>best_next_hop = ph, last_seqno = sn, metric = lm, last_seen = now\<rparr>
      | Some e \<Rightarrow> if sn > last_seqno e
                  then Some \<lparr>best_next_hop = ph, last_seqno = sn, metric = lm, last_seen = now\<rparr>
                  else Some e)
   \<and> (\<forall>k. k \<noteq> oid \<longrightarrow> originators (snd (handle_ogm n st now oid sn ttl ph lm)) k = originators st k)
   \<and> (\<forall>k e. originators st k = Some e \<longrightarrow>
         (\<exists>e'. originators (handle_ogms n st ogms) k = Some e' \<and> last_seqno e \<le> last_seqno e'))"
  by (auto simp: originators_handle_ogm originators_update_originators handle_ogms_monotone
      split: option.splits)

theorem ogm_originator_update_witness:
  "originators (snd (handle_ogm node_B state_with_route 50 id_C 4 3 id_A 100)) id_C = Some entry_C
   \<and> originators (snd (handle_ogm node_B state_with_route 50 id_C 12 3 id_A 100)) id_C
       = Some \<lparr>best_next_hop = id_A, last_seqno = 12, metric = 100, last_seen = 50\<rparr>
   \<and> originators (snd (handle_ogm node_B state_with_route 50 id_A 1 3 id_A 100)) id_C = Some entry_C
   \<and> originators (snd (handle_ogm node_B state_with_route 50 id_A 1 3 id_A 100)) id_A
       = Some \<lparr>best_next_hop = id_A, last_seqno = 1, metric = 100, last_seen = 50\<rparr>
   \<and> (\<exists>e'. originators (handle_ogms node_B state_with_route
                [(50, id_C, 12, 3, id_A, 100), (60, id_C, 4, 3, id_A, 90)]) id_C = Some e'
           \<and> last_seqno entry_C \<le> last_seqno e')"
proof -
  have s: "originators state_with_route id_C = Some entry_C"
    "originators state_with_route id_A = None" "id_C \<noteq> id_A"
    by (simp_all add: state_with_route_def id_A_def id_C_def)
  have a: "originators (snd (handle_ogm node_B state_with_route 50 id_C 4 3 id_A 100)) id_C = Some entry_C"
    using ogm_originator_update [of node_B state_with_route 50 id_C 4 3 id_A 100 "[]"] s(1)
    by (simp add: entry_C_def)
  have b: "originators (snd (handle_ogm node_B state_with_route 50 id_C 12 3 id_A 100)) id_C
       = Some \<lparr>best_next_hop = id_A, last_seqno = 12, metric = 100, last_seen = 50\<rparr>"
    using ogm_originator_update [of node_B state_with_route 50 id_C 12 3 id_A 100 "[]"] s(1)
    by (simp add: entry_C_def)
  have c: "originators (snd (handle_ogm node_B state_with_route 50 id_A 1 3 id_A 100)) id_C = Some entry_C
     \<and> originators (snd (handle_ogm node_B state_with_route 50 id_A 1 3 id_A 100)) id_A
       = Some \<lparr>best_next_hop = id_A, last_seqno = 1, metric = 100, last_seen = 50\<rparr>"
    using ogm_originator_update [of node_B state_with_route 50 id_A 1 3 id_A 100 "[]"] s
    by simp
  have d: "\<exists>e'. originators (handle_ogms node_B state_with_route
                [(50, id_C, 12, 3, id_A, 100), (60, id_C, 4, 3, id_A, 90)]) id_C = Some e'
           \<and> last_seqno entry_C \<le> last_seqno e'"
    using ogm_originator_update [of node_B state_with_route 50 id_A 1 3 id_A 100
        "[(50, id_C, 12, 3, id_A, 100), (60, id_C, 4, 3, id_A, 90)]"] s(1)
    by blast
  from a b c d show ?thesis by blast
qed


section \<open>Building DATA payloads\<close>

lemma build_data_payload_unfold:
  "build_data_payload n dest s p =
     bind_exn (pack_be32 s) (\<lambda>seq4.
       bind_exn (build_mesh_header MESH_MSG_DATA (chosen_flags n p) (ogm_ttl n) (node_id n) s)
         (\<lambda>h. Inr (h @ dest @ seq4 @
            (if encryption_enabled (encryptor n)
             then fst (encrypt (encryptor n) (chosen_payload n p) (node_id n @ dest @ seq4))
                  @ snd (encrypt (encryptor n) (chosen_payload n p) (node_id n @ dest @ seq4))
             else chosen_payload n p))))"
  by (simp add: build_data_payload_def chosen_payload_def chosen_flags_def Let_def
      MESH_FLAG_COMPRESSED_def MESH_FLAG_ENCRYPTED_def bind_exn_def split_beta
      split: sum.splits)

lemma chosen_flags_bits:
  "0 \<le> chosen_flags n p \<and> chosen_flags n p < 256
   \<and> (chosen_flags n p AND MESH_FLAG_COMPRESSED \<noteq> 0 \<longleftrightarrow> length (zlib_compress n p) < length p)
   \<and> (chosen_flags n p AND MESH_FLAG_ENCRYPTED \<noteq> 0 \<longleftrightarrow> encryption_enabled (encryptor n))"
  by (simp add: chosen_flags_def MESH_FLAG_COMPRESSED_def MESH_FLAG_ENCRYPTED_def)

text \<open>
  C7. For every application payload, \<open>_build_data_payload\<close> (with an 8-byte node id, a TTL
  in [0, 255] and a sequence number in [0, 2^32), so that it returns) sets the COMPRESSED
  flag of the mesh header if and only if \<open>zlib.compress\<close> of the payload is strictly
  shorter than the payload, and the body after the destination and the sequence number
  is built from the compressed bytes in that case and from the original bytes otherwise:
  those bytes themselves without encryption, the nonce and ciphertext of those bytes
  with it.
\<close>

theorem compression_discipline:
  assumes "length (node_id n) = 8" "0 \<le> ogm_ttl n" "ogm_ttl n < 256" "0 \<le> s" "s < 2 ^ 32"
  shows "\<exists>out fl seq4.
           build_data_payload n dest s p = Inr out \<and> pack_be32 s = Inr seq4
         \<and> parse_mesh_header (take 16 out) = Inr (1, MESH_MSG_DATA, fl, ogm_ttl n, node_id n, s)
         \<and> (fl AND MESH_FLAG_COMPRESSED \<noteq> 0 \<longleftrightarrow> length (zlib_compress n p) < length p)
         \<and> (fl AND MESH_FLAG_ENCRYPTED \<noteq> 0 \<longleftrightarrow> encryption_enabled (encryptor n))
         \<and> drop 16 out = dest @ seq4 @
              (let payload_to_send =
                     (if length (zlib_compress n p) < length p then zlib_compress n p else p)
               in if encryption_enabled (encryptor n)
                  then fst (encrypt (encryptor n) payload_to_send (node_id n @ dest @ seq4))
                       @ snd (encrypt (encryptor n) payload_to_send (node_id n @ dest @ seq4))
                  else payload_to_send)"
proof -
  obtain seq4 where seq4: "pack_be32 s = Inr seq4" using assms pack_be32_in_range by blast
  have fl: "0 \<le> chosen_flags n p" "chosen_flags n p < 256" using chosen_flags_bits by blast+
  have "0 \<le> MESH_MSG_DATA" "MESH_MSG_DATA < 256" by (simp_all add: MESH_MSG_DATA_def)
  from build_parse_in_range [OF this fl assms(2,3,1,4,5)]
  obtain h where h: "build_mesh_header MESH_MSG_DATA (chosen_flags n p) (ogm_ttl n) (node_id n) s = Inr h"
    "length h = 16"
    "parse_mesh_header h = Inr (1, MESH_MSG_DATA, chosen_flags n p, ogm_ttl n, node_id n, s)"
    by blast
  let ?tail = "if encryption_enabled (encryptor n)
             then fst (encrypt (encryptor n) (chosen_payload n p) (node_id n @ dest @ seq4))
                  @ snd (encrypt (encryptor n) (chosen_payload n p) (node_id n @ dest @ seq4))
             else chosen_payload n p"
  have out: "build_data_payload n dest s p = Inr (h @ dest @ seq4 @ ?tail)"
    unfolding build_data_payload_unfold by (simp add: seq4 h(1) bind_exn_def)
  have "parse_mesh_header (take 16 (h @ dest @ seq4 @ ?tail))
          = Inr (1, MESH_MSG_DATA, chosen_flags n p, ogm_ttl n, node_id n, s)"
    using h(2,3) by simp
  moreover have "drop 16 (h @ dest @ seq4 @ ?tail) = dest @ seq4 @ ?tail"
    using h(2) by simp
  ultimately show ?thesis
    using out seq4 chosen_flags_bits [of n p]
    by (intro exI [of _ "h @ dest @ seq4 @ ?tail"] exI [of _ "chosen_flags n p"] exI [of _ seq4])
       (simp add: chosen_payload_def Let_def)
qed


theorem compression_discipline_witness:
  "(\<exists>out fl seq4.
      build_data_payload node_B id_C 7 [0x61, 0x61, 0x61, 0x61, 0x61, 0x61, 0x61, 0x61] = Inr out
    \<and> pack_be32 7 = Inr seq4
    \<and> parse_mesh_header (take 16 out) = Inr (1, MESH_MSG_DATA, fl, 5, id_B, 7)
    \<and> fl AND MESH_FLAG_COMPRESSED \<noteq> 0
    \<and> drop 16 out = id_C @ seq4 @ [0x78, 0x61, 8])
   \<and> (\<exists>out fl seq4.
      build_data_payload node_B id_C 7 [0x68, 0x69] = Inr out
    \<and> pack_be32 7 = Inr seq4
    \<and> parse_mesh_header (take 16 out) = Inr (1, MESH_MSG_DATA, fl, 5, id_B, 7)
    \<and> fl AND MESH_FLAG_COMPRESSED = 0
    \<and> drop 16 out = id_C @ seq4 @ [0x68, 0x69])"
proof -
  have n: "length (node_id node_B) = 8" "0 \<le> ogm_ttl node_B" "ogm_ttl node_B < 256"
    "(0::int) \<le> 7" "(7::int) < 2 ^ 32"
    "ogm_ttl node_B = 5" "node_id node_B = id_B" "\<not> encryption_enabled (encryptor node_B)"
    by (simp_all add: node_B_def id_B_def example_encryptor_def)
  have c1: "zlib_compress node_B [0x61, 0x61, 0x61, 0x61, 0x61, 0x61, 0x61, 0x61] = [0x78, 0x61, 8]"
    by (simp add: node_B_def example_compress_def)
  have c2: "zlib_compress node_B [0x68, 0x69] = [0x78, 0x68, 0x69]"
    by (simp add: node_B_def example_compress_def)
  show ?thesis
    using compression_discipline [OF n(1-5), of id_C "[0x61, 0x61, 0x61, 0x61, 0x61, 0x61, 0x61, 0x61]"]
      compression_discipline [OF n(1-5), of id_C "[0x68, 0x69]"]
    unfolding c1 c2 n(6,7) by (simp add: n(8)) blast
qed


section \<open>Effects of the frame handlers\<close>

lemma same_tables_simps [simp]:
  "same_tables st st"
  "same_tables st (act as st') = same_tables st st'"
  "same_tables st (log_msg lvl msg st') = same_tables st st'"
  "same_tables st (st'\<lparr>delivered := d\<rparr>) = same_tables st st'"
  "same_tables st (st'\<lparr>tx_queue := q\<rparr>) = same_tables st st'"
  "same_tables st (st'\<lparr>sync_trace := t\<rparr>) = same_tables st st'"
  "same_tables st (st'\<lparr>log_records := l\<rparr>) = same_tables st st'"
  by (simp_all add: same_tables_def act_def log_msg_def)

lemma act_act: "act bs (act as st) = act (as @ bs) st"
  by (simp add: act_def)

lemma data_seen_act [simp]: "data_seen (act as st) = data_seen st"
  by (simp add: act_def)

lemma act_fields:
  "originators (act as st) = originators st" "neighbors (act as st) = neighbors st"
  "kiss_running (act as st) = kiss_running st"
  "seqno_counter (act as st) = seqno_counter st" "tx_queue (act as st) = tx_queue st"
  "delivered (act as st) = delivered st" "log_records (act as st) = log_records st"
  by (simp_all add: act_def)

lemma kiss_send_cases:
  "kiss_send st frame = (r, st') \<Longrightarrow>
     (\<not> kiss_running st \<and> r = Raised KISSClientError \<and> st' = st)
   \<or> (kiss_running st \<and> r = Returned \<and> st' = st\<lparr>tx_queue := tx_queue st @ [frame]\<rparr>)"
  by (auto simp: kiss_send_def split: if_splits)

lemma deliver_or_forward_effects:
  assumes "deliver_or_forward n st oid s ttl f body dest dseq app = (r, st')"
  shows "same_tables st st'
   \<and> (delivered st' = delivered st
        \<or> (dest = node_id n \<and> delivered st' = delivered st @ [(oid, dest, dseq, app)]))
   \<and> (tx_queue st' = tx_queue st
        \<or> (dest \<noteq> node_id n \<and> 1 < ttl \<and> originators st dest \<noteq> None \<and> kiss_running st
            \<and> (\<exists>h. build_mesh_header MESH_MSG_DATA f (ttl - 1) oid s = Inr h
                   \<and> tx_queue st' = tx_queue st @ [wrap_in_ax25_ui n (h @ body)])))"
  using assms
  by (auto simp: deliver_or_forward_def lookup_best_next_hop_def Let_def act_def log_msg_def
      dest!: kiss_send_cases split: if_splits option.splits sum.splits)


lemma continue_parsing_accepted:
  "accepted_payload n oid f body = Some app \<Longrightarrow>
     \<exists>dseq. unpack_be32 (py_slice body 8 12) = Inr dseq
       \<and> continue_parsing n st oid s ttl f body
           = deliver_or_forward n st oid s ttl f body (py_slice body 0 8) dseq app"
  by (auto simp: accepted_payload_def continue_parsing_def decompress_then_route_def Let_def
      split: if_splits sum.splits option.splits)

lemma continue_parsing_rejected:
  "accepted_payload n oid f body = None \<Longrightarrow> continue_parsing n st oid s ttl f body = (r, st')
     \<Longrightarrow> same_tables st st' \<and> delivered st' = delivered st \<and> tx_queue st' = tx_queue st
         \<and> sync_trace st' = sync_trace st"
  by (auto simp: accepted_payload_def continue_parsing_def decompress_then_route_def Let_def
      log_msg_def split: if_splits sum.splits option.splits)


lemma continue_parsing_effects:
  assumes "continue_parsing n st oid s ttl f body = (r, st')"
  shows "same_tables st st'
   \<and> (delivered st' = delivered st
        \<or> (\<exists>app dseq. accepted_payload n oid f body = Some app \<and> py_slice body 0 8 = node_id n
              \<and> delivered st' = delivered st @ [(oid, py_slice body 0 8, dseq, app)]))
   \<and> (tx_queue st' = tx_queue st
        \<or> (accepted_payload n oid f body \<noteq> None \<and> py_slice body 0 8 \<noteq> node_id n \<and> 1 < ttl
            \<and> originators st (py_slice body 0 8) \<noteq> None \<and> kiss_running st
            \<and> (\<exists>h. build_mesh_header MESH_MSG_DATA f (ttl - 1) oid s = Inr h
                   \<and> tx_queue st' = tx_queue st @ [wrap_in_ax25_ui n (h @ body)])))"
proof (cases "accepted_payload n oid f body")
  case None
  from continue_parsing_rejected [OF None assms] show ?thesis by simp
next
  case (Some app)
  from continue_parsing_accepted [OF Some, of st s ttl] assms obtain dseq where
    "deliver_or_forward n st oid s ttl f body (py_slice body 0 8) dseq app = (r, st')" by auto
  from deliver_or_forward_effects [OF this] show ?thesis using Some by auto
qed

lemma handle_data_frame_duplicate:
  "(oid, s) \<in> dom (data_seen st) \<Longrightarrow>
     handle_data_frame n st now oid s ttl f body
       = (Returned, act [Acquire DataSeenLock, Access Lookup DataSeen, Release DataSeenLock] st)"
  by (simp add: handle_data_frame_def)

lemma handle_data_frame_fresh:
  "(oid, s) \<notin> dom (data_seen st) \<Longrightarrow>
     handle_data_frame n st now oid s ttl f body
       = continue_parsing n
           (act [Acquire DataSeenLock, Access Lookup DataSeen, Access Store DataSeen,
                 Release DataSeenLock] (st\<lparr>data_seen := (data_seen st)((oid, s) \<mapsto> now)\<rparr>))
           oid s ttl f body"
  by (simp add: handle_data_frame_def)

lemma handle_data_frame_effects:
  assumes "handle_data_frame n st now oid s ttl f body = (r, st')"
  shows "originators st' = originators st \<and> neighbors st' = neighbors st
   \<and> kiss_running st' = kiss_running st
   \<and> data_seen st' = (if (oid, s) \<in> dom (data_seen st) then data_seen st
                       else (data_seen st)((oid, s) \<mapsto> now))
   \<and> (delivered st' = delivered st
        \<or> ((oid, s) \<notin> dom (data_seen st)
            \<and> (\<exists>app dseq. accepted_payload n oid f body = Some app \<and> py_slice body 0 8 = node_id n
              \<and> delivered st' = delivered st @ [(oid, py_slice body 0 8, dseq, app)])))
   \<and> (tx_queue st' = tx_queue st
        \<or> ((oid, s) \<notin> dom (data_seen st)
            \<and> accepted_payload n oid f body \<noteq> None \<and> py_slice body 0 8 \<noteq> node_id n \<and> 1 < ttl
            \<and> originators st (py_slice body 0 8) \<noteq> None \<and> kiss_running st
            \<and> (\<exists>h. build_mesh_header MESH_MSG_DATA f (ttl - 1) oid s = Inr h
                   \<and> tx_queue st' = tx_queue st @ [wrap_in_ax25_ui n (h @ body)])))"
proof (cases "(oid, s) \<in> dom (data_seen st)")
  case True
  with assms show ?thesis by (auto simp: handle_data_frame_duplicate act_def)
next
  case False
  let ?st1 = "act [Acquire DataSeenLock, Access Lookup DataSeen, Access Store DataSeen,
                 Release DataSeenLock] (st\<lparr>data_seen := (data_seen st)((oid, s) \<mapsto> now)\<rparr>)"
  from assms False have "continue_parsing n ?st1 oid s ttl f body = (r, st')"
    by (simp add: handle_data_frame_fresh)
  from continue_parsing_effects [OF this] False show ?thesis
    by (simp add: same_tables_def act_def)
qed

lemma handle_ogm_effects:
  assumes "handle_ogm n st now oid s ttl ph lm = (r, st')"
  shows "data_seen st' = data_seen st \<and> delivered st' = delivered st
   \<and> kiss_running st' = kiss_running st
   \<and> (tx_queue st' = tx_queue st
        \<or> (1 < ttl \<and> kiss_running st
            \<and> (\<exists>h b. build_mesh_header MESH_MSG_OGM 0 (ttl - 1) oid s = Inr h
                   \<and> byte_of_int lm = Inr b
                   \<and> tx_queue st' = tx_queue st @ [wrap_in_ax25_ui n (h @ (node_id n @ [b]))])))"
  using assms
  by (auto simp: handle_ogm_def update_neighbors_def update_originators_def Let_def act_def
      dest!: kiss_send_cases split: if_splits option.splits sum.splits)


section \<open>Dispatch of received frames\<close>

lemma uint_byte_range: "0 \<le> uint (a :: byte) \<and> uint a < 256"
  using uint_lt2p [of a] by simp

lemma unpack_be32_range:
  assumes "unpack_be32 b = Inr v"
  shows "0 \<le> v \<and> v < 2 ^ 32 \<and> length b = 4"
proof -
  from assms obtain a0 a1 a2 a3 where b: "b = [a0, a1, a2, a3]"
    by (auto elim!: unpack_be32.elims)
  have r: "0 \<le> uint a0" "uint a0 \<le> 255" "0 \<le> uint a1" "uint a1 \<le> 255"
    "0 \<le> uint a2" "uint a2 \<le> 255" "0 \<le> uint a3" "uint a3 \<le> 255"
    using uint_byte_range [of a0] uint_byte_range [of a1] uint_byte_range [of a2]
      uint_byte_range [of a3] by simp_all
  have v: "v = uint a0 * 16777216 + uint a1 * 65536 + uint a2 * 256 + uint a3"
    using assms b by simp
  have "0 \<le> v" unfolding v using r by simp
  moreover have "v < 4294967296" unfolding v using r by linarith
  ultimately show ?thesis using b by simp
qed

lemma unpack_be32_total: "length b = 4 \<Longrightarrow> \<exists>v. unpack_be32 b = Inr v"
  by (auto simp: length_Suc_conv numeral_eq_Suc)

lemma parse_mesh_header_error:
  "parse_mesh_header info = Inl e \<Longrightarrow> e = ValueError \<and> length info < 16"
proof (cases "length info < 16")
  case True
  assume "parse_mesh_header info = Inl e"
  with True show ?thesis by (simp add: parse_mesh_header_def)
next
  case False
  assume a: "parse_mesh_header info = Inl e"
  from False have "length (py_slice info 12 16) = 4" by (simp add: py_slice_def)
  from unpack_be32_total [OF this] obtain v where "unpack_be32 (py_slice info 12 16) = Inr v" ..
  with a False show ?thesis by (simp add: parse_mesh_header_def bind_exn_def)
qed

lemma parse_mesh_header_ranges:
  assumes "parse_mesh_header info = Inr (v, t, f, ttl, oid, s)"
  shows "16 \<le> length info \<and> 0 \<le> v \<and> v < 256 \<and> 0 \<le> t \<and> t < 256 \<and> 0 \<le> f \<and> f < 256
       \<and> 0 \<le> ttl \<and> ttl < 256 \<and> length oid = 8 \<and> 0 \<le> s \<and> s < 2 ^ 32"
proof -
  from assms have len: "16 \<le> length info"
    by (auto simp: parse_mesh_header_def split: if_splits)
  with assms have u: "unpack_be32 (py_slice info 12 16) = Inr s"
    and f: "v = uint (info ! 0)" "t = uint (info ! 1)" "f = uint (info ! 2)"
      "ttl = uint (info ! 3)" "oid = py_slice info 4 12"
    by (auto simp: parse_mesh_header_def bind_exn_def split: sum.splits)
  from unpack_be32_range [OF u] len show ?thesis
    unfolding f using uint_byte_range [of "info ! 0"] uint_byte_range [of "info ! 1"]
      uint_byte_range [of "info ! 2"] uint_byte_range [of "info ! 3"]
    by (simp add: py_slice_def)
qed

lemma on_kiss_frame_dispatch:
  "on_kiss_frame n st now frame =
     (case parse_mesh_header (drop 16 frame) of
        Inl e \<Rightarrow> (Returned, st)
      | Inr (v, t, f, ttl, oid, s) \<Rightarrow>
          if v \<noteq> 1 then (Returned, st)
          else if t = MESH_MSG_OGM
          then (if length (drop 32 frame) < 9 then (Returned, st)
                else handle_ogm n st now oid s ttl (py_slice (drop 32 frame) 0 8)
                       (uint (drop 32 frame ! 8)))
          else if t = MESH_MSG_DATA
          then handle_data_frame n st now oid s ttl f (drop 32 frame)
          else (Returned, st))"
proof (cases "parse_mesh_header (drop 16 frame)")
  case (Inl e)
  from parse_mesh_header_error [OF Inl] Inl show ?thesis
    by (simp add: on_kiss_frame_def find_info_start_def)
next
  case (Inr p)
  obtain v t f ttl oid s where p: "p = (v, t, f, ttl, oid, s)" by (cases p) auto
  from parse_mesh_header_ranges [OF Inr [unfolded p]] have "16 < length frame" by auto
  with Inr p show ?thesis
    by (simp add: on_kiss_frame_def find_info_start_def MESH_VERSION_def Let_def)
qed

text \<open>The equations that evaluate the RX path on the example node.\<close>

lemmas rx_eval_defs =
  on_kiss_frame_dispatch data_frame_def ax25_prefix_def id_A_def id_B_def id_C_def
  parse_mesh_header_def py_slice_def bind_exn_def MESH_MSG_OGM_def MESH_MSG_DATA_def
  handle_data_frame_def continue_parsing_def decompress_then_route_def
  deliver_or_forward_def state_with_route_def initial_state_def node_B_def
  MESH_FLAG_ENCRYPTED_def MESH_FLAG_COMPRESSED_def act_def lookup_best_next_hop_def
  pack_be32_def kiss_send_def build_mesh_header_def set_byte_def byte_of_int_def
  py_slice_assign_def bytearray16_set4 MESH_VERSION_def Let_def wrap_in_ax25_ui_def
  example_encryptor_def example_decompress_def log_msg_def entry_C_def

lemma eval_forward:
  "tx_queue (snd (on_kiss_frame node_B state_with_route 0 (data_frame 0 5 id_C [0x68, 0x69])))
     = [ax25_dest_addr node_B @ ax25_src_addr node_B @ [0x03, 0xF0]
        @ [1, 0, 0, 4] @ id_A @ [0, 0, 0, 7] @ id_C @ [0, 0, 0, 7] @ [0x68, 0x69]]"
  by (simp add: rx_eval_defs)

lemma eval_ttl1:
  "tx_queue (snd (on_kiss_frame node_B state_with_route 0 (data_frame 0 1 id_C [0x68, 0x69]))) = []"
  by (simp add: rx_eval_defs)


section \<open>Forwarding\<close>

lemma forwarded_header:
  assumes p: "parse_mesh_header info = Inr (v, t, f, ttl, oid, s)"
    and b: "build_mesh_header t' f' (ttl - 1) oid s = Inr h"
    and r: "0 \<le> t'" "t' < 256" "0 \<le> f'" "f' < 256" "1 < ttl"
  shows "length h = 16 \<and> parse_mesh_header h = Inr (1, t', f', ttl - 1, oid, s)"
proof -
  from parse_mesh_header_ranges [OF p] have
    "0 \<le> ttl - 1" "ttl - 1 < 256" "length oid = 8" "0 \<le> s" "s < 2 ^ 32"
    using r by simp_all
  from build_parse_in_range [OF r(1-4) this] b show ?thesis by auto
qed

text \<open>
  C4. For every frame handed to \<open>_on_kiss_frame\<close>: the TX queue is either unchanged or
  one frame longer, and in the latter case the received mesh header parses, its TTL is
  greater than 1, and the new frame is the AX.25 wrapping of a 16-byte mesh header
  followed by a body, where the header parses to the received version, message type,
  origin and sequence number with TTL one less (hence at least 1) and with the received
  flags for DATA (0 for OGM), and for DATA the body is the received body, byte for byte.
  A frame whose header carries a TTL of at most 1 leaves the TX queue unchanged.
\<close>

theorem forward_ttl_discipline:
  assumes "on_kiss_frame n st now frame = (r, st')"
  shows "(tx_queue st' = tx_queue st
          \<or> (\<exists>v t f ttl oid s h body'.
                parse_mesh_header (drop 16 frame) = Inr (v, t, f, ttl, oid, s)
              \<and> 1 < ttl
              \<and> tx_queue st' = tx_queue st @ [wrap_in_ax25_ui n (h @ body')]
              \<and> length h = 16
              \<and> parse_mesh_header h
                  = Inr (v, t, (if t = MESH_MSG_DATA then f else 0), ttl - 1, oid, s)
              \<and> 1 \<le> ttl - 1
              \<and> (if t = MESH_MSG_DATA then body' = drop 32 frame else t = MESH_MSG_OGM)))
       \<and> (\<forall>v t f ttl oid s. parse_mesh_header (drop 16 frame) = Inr (v, t, f, ttl, oid, s)
             \<longrightarrow> ttl \<le> 1 \<longrightarrow> tx_queue st' = tx_queue st)"
proof (cases "parse_mesh_header (drop 16 frame)")
  case (Inl e)
  with assms show ?thesis by (simp add: on_kiss_frame_dispatch)
next
  case (Inr p)
  obtain v t f ttl oid s where p: "p = (v, t, f, ttl, oid, s)" by (cases p) auto
  note parsed = Inr [unfolded p]
  note rng = parse_mesh_header_ranges [OF parsed]
  consider (drop) "st' = st" | (ogm) ph lm where "v = 1" "t = MESH_MSG_OGM"
      "handle_ogm n st now oid s ttl ph lm = (r, st')"
    | (data) "v = 1" "t = MESH_MSG_DATA"
      "handle_data_frame n st now oid s ttl f (drop 32 frame) = (r, st')"
    using assms parsed
    by (auto simp: on_kiss_frame_dispatch MESH_MSG_OGM_def MESH_MSG_DATA_def split: if_splits)
  then have "tx_queue st' = tx_queue st
          \<or> (1 < ttl \<and> (\<exists>h body'.
                tx_queue st' = tx_queue st @ [wrap_in_ax25_ui n (h @ body')]
              \<and> length h = 16
              \<and> parse_mesh_header h
                  = Inr (v, t, (if t = MESH_MSG_DATA then f else 0), ttl - 1, oid, s)
              \<and> (if t = MESH_MSG_DATA then body' = drop 32 frame else t = MESH_MSG_OGM)))"
  proof cases
    case drop
    then show ?thesis by simp
  next
    case ogm
    from handle_ogm_effects [OF ogm(3)] show ?thesis
    proof (elim conjE disjE exE)
      fix h b
      assume a: "1 < ttl" "build_mesh_header MESH_MSG_OGM 0 (ttl - 1) oid s = Inr h"
        "tx_queue st' = tx_queue st @ [wrap_in_ax25_ui n (h @ (node_id n @ [b]))]"
      have "length h = 16 \<and> parse_mesh_header h = Inr (1, MESH_MSG_OGM, 0, ttl - 1, oid, s)"
        by (rule forwarded_header [OF parsed a(2)]) (simp_all add: MESH_MSG_OGM_def a(1))
      with a ogm(1,2) show ?thesis by (auto simp: MESH_MSG_OGM_def MESH_MSG_DATA_def)
    qed simp
  next
    case data
    from handle_data_frame_effects [OF data(3)]
    have "tx_queue st' = tx_queue st
        \<or> (1 < ttl \<and> (\<exists>h. build_mesh_header MESH_MSG_DATA f (ttl - 1) oid s = Inr h
                   \<and> tx_queue st' = tx_queue st @ [wrap_in_ax25_ui n (h @ drop 32 frame)]))"
      by blast
    then show ?thesis
    proof (elim conjE disjE exE)
      fix h
      assume a: "1 < ttl" "build_mesh_header MESH_MSG_DATA f (ttl - 1) oid s = Inr h"
        "tx_queue st' = tx_queue st @ [wrap_in_ax25_ui n (h @ drop 32 frame)]"
      have "length h = 16 \<and> parse_mesh_header h = Inr (1, MESH_MSG_DATA, f, ttl - 1, oid, s)"
        using rng by (intro forwarded_header [OF parsed a(2)]) (simp_all add: MESH_MSG_DATA_def a(1))
      with a data(1,2) show ?thesis by auto
    qed simp
  qed
  then show ?thesis using parsed by auto
qed


theorem forward_ttl_discipline_witness:
  "parse_mesh_header (drop 16 (data_frame 0 5 id_C [0x68, 0x69])) = Inr (1, 0, 0, 5, id_A, 7)
   \<and> (\<exists>h. tx_queue (snd (on_kiss_frame node_B state_with_route 0 (data_frame 0 5 id_C [0x68, 0x69])))
            = tx_queue state_with_route
              @ [wrap_in_ax25_ui node_B (h @ drop 32 (data_frame 0 5 id_C [0x68, 0x69]))]
          \<and> parse_mesh_header h = Inr (1, 0, 0, 4, id_A, 7))
   \<and> parse_mesh_header (drop 16 (data_frame 0 1 id_C [0x68, 0x69])) = Inr (1, 0, 0, 1, id_A, 7)
   \<and> tx_queue (snd (on_kiss_frame node_B state_with_route 0 (data_frame 0 1 id_C [0x68, 0x69])))
       = tx_queue state_with_route"
proof -
  let ?f5 = "data_frame 0 5 id_C [0x68, 0x69]" and ?f1 = "data_frame 0 1 id_C [0x68, 0x69]"
  have p5: "parse_mesh_header (drop 16 ?f5) = Inr (1, 0, 0, 5, id_A, 7)"
    and p1: "parse_mesh_header (drop 16 ?f1) = Inr (1, 0, 0, 1, id_A, 7)"
    by (simp_all add: data_frame_def ax25_prefix_def id_A_def id_C_def parse_mesh_header_def
        py_slice_def bind_exn_def)
  have q: "tx_queue state_with_route = []"
    by (simp add: state_with_route_def initial_state_def)
  have ne: "tx_queue (snd (on_kiss_frame node_B state_with_route 0 ?f5)) \<noteq> tx_queue state_with_route"
    unfolding q eval_forward by simp
  from forward_ttl_discipline [OF prod.collapse [symmetric], of node_B state_with_route 0 ?f5] ne p5
  have a: "\<exists>h. tx_queue (snd (on_kiss_frame node_B state_with_route 0 ?f5))
            = tx_queue state_with_route @ [wrap_in_ax25_ui node_B (h @ drop 32 ?f5)]
          \<and> parse_mesh_header h = Inr (1, 0, 0, 4, id_A, 7)"
    by (auto simp: MESH_MSG_DATA_def)
  from forward_ttl_discipline [OF prod.collapse [symmetric], of node_B state_with_route 0 ?f1] p1
  have b: "tx_queue (snd (on_kiss_frame node_B state_with_route 0 ?f1)) = tx_queue state_with_route"
    by auto
  from p5 a p1 b show ?thesis by blast
qed


section \<open>The dedup cache over runs of the node\<close>

lemma on_kiss_frame_data:
  "parse_mesh_header (drop 16 frame) = Inr (1, MESH_MSG_DATA, f, ttl, oid, s) \<Longrightarrow>
     on_kiss_frame n st now frame = handle_data_frame n st now oid s ttl f (drop 32 frame)"
  by (simp add: on_kiss_frame_dispatch MESH_MSG_DATA_def MESH_MSG_OGM_def)

lemma rx_frame_fields:
  "data_seen (snd (rx_frame n st now frame))
     = data_seen (snd (on_kiss_frame n (act [Acquire KissLock] st) now frame))"
  "delivered (snd (rx_frame n st now frame))
     = delivered (snd (on_kiss_frame n (act [Acquire KissLock] st) now frame))"
  "tx_queue (snd (rx_frame n st now frame))
     = tx_queue (snd (on_kiss_frame n (act [Acquire KissLock] st) now frame))"
  "originators (snd (rx_frame n st now frame))
     = originators (snd (on_kiss_frame n (act [Acquire KissLock] st) now frame))"
  by (auto simp: rx_frame_def handle_rx_frame_def log_msg_def act_fields
      split: prod.splits outcome.splits)

lemma rx_frame_duplicate:
  assumes "parse_mesh_header (drop 16 frame) = Inr (1, MESH_MSG_DATA, f, ttl, oid, s)"
    and "(oid, s) \<in> dom (data_seen st)"
  shows "rx_frame n st now frame = (Returned, gate_drop st)"
  using assms
  by (simp add: rx_frame_def handle_rx_frame_def on_kiss_frame_data handle_data_frame_duplicate
      gate_drop_def act_act act_fields)

lemma on_kiss_frame_keeps_seen:
  assumes "data_seen st k = Some ts"
  shows "data_seen (snd (on_kiss_frame n st now frame)) k = Some ts"
proof (cases "parse_mesh_header (drop 16 frame)")
  case (Inl e)
  with assms show ?thesis by (simp add: on_kiss_frame_dispatch)
next
  case (Inr p)
  obtain v t f ttl oid s where p: "p = (v, t, f, ttl, oid, s)" by (cases p) auto
  obtain r st' where rs: "on_kiss_frame n st now frame = (r, st')" by (cases "on_kiss_frame n st now frame")
  consider (drop) "st' = st" | (ogm) ph lm where "handle_ogm n st now oid s ttl ph lm = (r, st')"
    | (data) "handle_data_frame n st now oid s ttl f (drop 32 frame) = (r, st')"
    using rs Inr p
    by (auto simp: on_kiss_frame_dispatch split: if_splits)
  then have "data_seen st' k = Some ts"
  proof cases
    case drop
    with assms show ?thesis by simp
  next
    case ogm
    from handle_ogm_effects [OF ogm] assms show ?thesis by simp
  next
    case data
    from handle_data_frame_effects [OF data] assms show ?thesis by (auto simp: dom_def)
  qed
  with rs show ?thesis by simp
qed

lemma data_seen_kiss_send [simp]: "data_seen (snd (kiss_send st frame)) = data_seen st"
  by (simp add: kiss_send_def)

lemma data_seen_next_seqno [simp]: "data_seen (snd (next_seqno st)) = data_seen st"
  by (simp add: next_seqno_def Let_def)

lemma node_step_keeps_seen:
  assumes "data_seen st k = Some ts" and "cleanups_before_expiry n ts [ev]"
  shows "data_seen (node_step n st ev) k = Some ts"
proof (cases ev)
  case (RxFrame now frame)
  with assms(1) show ?thesis by (simp add: rx_frame_fields on_kiss_frame_keeps_seen)
next
  case (CleanupTick now)
  with assms show ?thesis by (simp add: cleanup_iteration_def evict_def)
next
  case OgmTick
  with assms(1) show ?thesis
    by (simp add: ogm_iteration_def build_ogm_payload_def split_beta split: sum.splits)
next
  case (AppSend dest payload)
  with assms(1) show ?thesis
    by (simp add: send_application_data_def split_beta split: sum.splits)
qed

lemma run_keeps_seen:
  "data_seen st k = Some ts \<Longrightarrow> cleanups_before_expiry n ts evs
     \<Longrightarrow> data_seen (run n st evs) k = Some ts"
proof (induction evs arbitrary: st)
  case Nil
  then show ?case by (simp add: run_def)
next
  case (Cons ev evs)
  from Cons.prems(2) have "cleanups_before_expiry n ts [ev]" "cleanups_before_expiry n ts evs"
    by (cases ev; simp)+
  from Cons.IH [OF node_step_keeps_seen [OF Cons.prems(1) this(1)] this(2)]
  show ?case by (simp add: run_def)
qed

lemma rx_frame_first_feed:
  assumes p: "parse_mesh_header (drop 16 frame) = Inr (1, MESH_MSG_DATA, f, ttl, oid, s)"
  shows "data_seen (snd (rx_frame n st now frame)) (oid, s)
           = (if (oid, s) \<in> dom (data_seen st) then data_seen st (oid, s) else Some now)
       \<and> length (delivered (snd (rx_frame n st now frame))) \<le> length (delivered st) + 1
       \<and> length (delivered st) \<le> length (delivered (snd (rx_frame n st now frame)))"
proof -
  let ?sa = "act [Acquire KissLock] st"
  obtain r st' where rs: "handle_data_frame n ?sa now oid s ttl f (drop 32 frame) = (r, st')"
    by (cases "handle_data_frame n ?sa now oid s ttl f (drop 32 frame)")
  from handle_data_frame_effects [OF rs] show ?thesis
    unfolding rx_frame_fields on_kiss_frame_data [OF p] rs by (auto simp: act_fields)
qed


lemma gate_drop_fields [simp]:
  "delivered (gate_drop st) = delivered st" "tx_queue (gate_drop st) = tx_queue st"
  "log_records (gate_drop st) = log_records st" "data_seen (gate_drop st) = data_seen st"
  "originators (gate_drop st) = originators st" "neighbors (gate_drop st) = neighbors st"
  by (simp_all add: gate_drop_def act_def)

lemma second_feed_dropped:
  assumes p1: "parse_mesh_header (drop 16 frame1) = Inr (1, MESH_MSG_DATA, f1, ttl1, oid, s)"
    and p2: "parse_mesh_header (drop 16 frame2) = Inr (1, MESH_MSG_DATA, f2, ttl2, oid, s)"
    and fresh: "(oid, s) \<notin> dom (data_seen st)"
    and within: "cleanups_before_expiry n t1 evs"
  shows "data_seen (snd (rx_frame n st t1 frame1)) (oid, s) = Some t1
       \<and> rx_frame n (run n (snd (rx_frame n st t1 frame1)) evs) t2 frame2
           = (Returned, gate_drop (run n (snd (rx_frame n st t1 frame1)) evs))"
proof -
  let ?st1 = "snd (rx_frame n st t1 frame1)"
  from rx_frame_first_feed [OF p1, of n st t1] fresh
  have k: "data_seen ?st1 (oid, s) = Some t1" by simp
  from run_keeps_seen [OF k within] have "(oid, s) \<in> dom (data_seen (run n ?st1 evs))" by auto
  from rx_frame_duplicate [OF p2 this] k show ?thesis by simp
qed

text \<open>
  C3. Feeding the same DATA frame bytes (version 1, origin \<open>oid\<close>, sequence number \<open>s\<close>)
  to the RX path at time \<open>t1\<close> and again at \<open>t2\<close>, with any events in between whose
  cleanup passes all run no later than \<open>data_seen_expiry\<close> after \<open>t1\<close>, invokes the
  application callback at most once over the two feeds. At the dedup gate a key that is
  present makes the handler return at once (only the lock and lookup actions are
  recorded: no delivery, no forward, no log record), and a key that is absent is stored
  with the current timestamp \<open>t1\<close>, after which the second feed stops at the gate.
\<close>

theorem idempotent_intake:
  assumes "parse_mesh_header (drop 16 frame) = Inr (1, MESH_MSG_DATA, f, ttl, oid, s)"
    and "cleanups_before_expiry n t1 evs"
  shows "(let st1 = snd (rx_frame n st t1 frame);
              st2 = run n st1 evs;
              st3 = snd (rx_frame n st2 t2 frame)
          in (length (delivered st1) - length (delivered st))
               + (length (delivered st3) - length (delivered st2)) \<le> 1
           \<and> (if (oid, s) \<in> dom (data_seen st)
               then rx_frame n st t1 frame = (Returned, gate_drop st)
               else data_seen st1 (oid, s) = Some t1
                  \<and> rx_frame n st2 t2 frame = (Returned, gate_drop st2)))"
proof (cases "(oid, s) \<in> dom (data_seen st)")
  case True
  from rx_frame_duplicate [OF assms(1) True] have 1: "rx_frame n st t1 frame = (Returned, gate_drop st)" .
  from rx_frame_first_feed [OF assms(1), of n "run n (gate_drop st) evs" t2]
  show ?thesis using True 1 by (simp add: Let_def) arith
next
  case False
  from second_feed_dropped [OF assms(1) assms(1) False assms(2), of t2]
    rx_frame_first_feed [OF assms(1), of n st t1]
  show ?thesis using False by (simp add: Let_def) arith
qed

text \<open>
  C10. On DATA reception the key \<open>(origin_id, seqno)\<close> is stored in the dedup cache
  before the body is looked at. So a DATA frame with a fresh key whose body is then
  stopped (shorter than 12 bytes, AEAD failure or too short a remainder, decompression
  failure: \<open>accepted_payload\<close> is \<open>None\<close>) is neither delivered nor forwarded and still
  leaves its key in the cache with timestamp \<open>t1\<close>; and any later DATA frame with the same
  origin and sequence number, arriving while no cleanup pass has run later than
  \<open>data_seen_expiry\<close> after \<open>t1\<close>, stops at the dedup gate: it is neither delivered nor
  forwarded.
\<close>

theorem dropped_frame_consumes_key:
  assumes "parse_mesh_header (drop 16 frame1) = Inr (1, MESH_MSG_DATA, f1, ttl1, oid, s)"
    and "parse_mesh_header (drop 16 frame2) = Inr (1, MESH_MSG_DATA, f2, ttl2, oid, s)"
    and "(oid, s) \<notin> dom (data_seen st)"
    and "cleanups_before_expiry n t1 evs"
    and "accepted_payload n oid f1 (drop 32 frame1) = None"
  shows "(let st1 = snd (rx_frame n st t1 frame1); st2 = run n st1 evs
          in delivered st1 = delivered st \<and> tx_queue st1 = tx_queue st
           \<and> data_seen st1 (oid, s) = Some t1
           \<and> rx_frame n st2 t2 frame2 = (Returned, gate_drop st2)
           \<and> delivered (snd (rx_frame n st2 t2 frame2)) = delivered st2
           \<and> tx_queue (snd (rx_frame n st2 t2 frame2)) = tx_queue st2)"
proof -
  let ?sa = "act [Acquire KissLock] st"
  obtain r st' where rs: "handle_data_frame n ?sa t1 oid s ttl1 f1 (drop 32 frame1) = (r, st')"
    by (cases "handle_data_frame n ?sa t1 oid s ttl1 f1 (drop 32 frame1)")
  from handle_data_frame_effects [OF rs] assms(5)
  have "delivered st' = delivered st \<and> tx_queue st' = tx_queue st" by (auto simp: act_fields)
  then have "delivered (snd (rx_frame n st t1 frame1)) = delivered st
      \<and> tx_queue (snd (rx_frame n st t1 frame1)) = tx_queue st"
    unfolding rx_frame_fields on_kiss_frame_data [OF assms(1)] rs by simp
  with second_feed_dropped [OF assms(1-4), of t2] show ?thesis by (simp add: Let_def)
qed


lemma example_frame_header:
  "parse_mesh_header (drop 16 (data_frame f ttl dest payload))
     = Inr (1, MESH_MSG_DATA, uint f, uint ttl, id_A, 7)"
  by (simp add: data_frame_def ax25_prefix_def id_A_def parse_mesh_header_def py_slice_def
      bind_exn_def MESH_MSG_DATA_def)

theorem idempotent_intake_witness:
  "parse_mesh_header (drop 16 (data_frame 0 5 id_B [0x68, 0x69]))
     = Inr (1, MESH_MSG_DATA, 0, 5, id_A, 7)
   \<and> cleanups_before_expiry node_B 0 [CleanupTick 20, OgmTick]
   \<and> (id_A, 7) \<notin> dom (data_seen initial_state)
   \<and> delivered (snd (rx_frame node_B initial_state 0 (data_frame 0 5 id_B [0x68, 0x69])))
       = [(id_A, id_B, 7, [0x68, 0x69])]
   \<and> rx_frame node_B
        (run node_B (snd (rx_frame node_B initial_state 0 (data_frame 0 5 id_B [0x68, 0x69])))
           [CleanupTick 20, OgmTick])
        25 (data_frame 0 5 id_B [0x68, 0x69])
       = (Returned,
          gate_drop (run node_B
            (snd (rx_frame node_B initial_state 0 (data_frame 0 5 id_B [0x68, 0x69])))
            [CleanupTick 20, OgmTick]))"
proof -
  have p: "parse_mesh_header (drop 16 (data_frame 0 5 id_B [0x68, 0x69]))
     = Inr (1, MESH_MSG_DATA, 0, 5, id_A, 7)"
    using example_frame_header [of 0 5 id_B "[0x68, 0x69]"] by simp
  have c: "cleanups_before_expiry node_B 0 [CleanupTick 20, OgmTick]"
    by (simp add: node_B_def)
  have k: "(id_A, 7) \<notin> dom (data_seen initial_state)"
    by (simp add: initial_state_def)
  have d: "delivered (snd (rx_frame node_B initial_state 0 (data_frame 0 5 id_B [0x68, 0x69])))
       = [(id_A, id_B, 7, [0x68, 0x69])]"
    unfolding rx_frame_fields by (simp add: rx_eval_defs)
  from idempotent_intake [OF p c, of initial_state 25] k p c d show ?thesis
    by (simp add: Let_def)
qed

theorem dropped_frame_consumes_key_witness:
  "accepted_payload node_B id_A 1 (drop 32 (data_frame 1 5 id_B [])) = None
   \<and> data_seen (snd (rx_frame node_B initial_state 0 (data_frame 1 5 id_B []))) (id_A, 7) = Some 0
   \<and> delivered (snd (rx_frame node_B initial_state 0 (data_frame 1 5 id_B [])))
       = delivered initial_state
   \<and> rx_frame node_B
        (run node_B (snd (rx_frame node_B initial_state 0 (data_frame 1 5 id_B [])))
           [CleanupTick 20, OgmTick])
        25 (data_frame 0 5 id_B [0x68, 0x69])
       = (Returned,
          gate_drop (run node_B (snd (rx_frame node_B initial_state 0 (data_frame 1 5 id_B [])))
            [CleanupTick 20, OgmTick]))"
proof -
  have p1: "parse_mesh_header (drop 16 (data_frame 1 5 id_B [])) = Inr (1, MESH_MSG_DATA, 1, 5, id_A, 7)"
    using example_frame_header [of 1 5 id_B "[]"] by simp
  have p2: "parse_mesh_header (drop 16 (data_frame 0 5 id_B [0x68, 0x69]))
     = Inr (1, MESH_MSG_DATA, 0, 5, id_A, 7)"
    using example_frame_header [of 0 5 id_B "[0x68, 0x69]"] by simp
  have c: "cleanups_before_expiry node_B 0 [CleanupTick 20, OgmTick]"
    by (simp add: node_B_def)
  have k: "(id_A, 7) \<notin> dom (data_seen initial_state)"
    by (simp add: initial_state_def)
  have a: "accepted_payload node_B id_A 1 (drop 32 (data_frame 1 5 id_B [])) = None"
    by (simp add: accepted_payload_def data_frame_def ax25_prefix_def id_A_def id_B_def py_slice_def
        pack_be32_def MESH_FLAG_ENCRYPTED_def MESH_FLAG_COMPRESSED_def node_B_def
        example_decompress_def)
  from dropped_frame_consumes_key [OF p1 p2 k c a, of 25] a show ?thesis
    by (simp add: Let_def)
qed


section \<open>Decryption failure\<close>





section \<open>Forwarding and the payload steps\<close>

text \<open>
  C2, as claimed: for a DATA frame whose destination is another node, forwarding skips
  decryption and decompression, so their success has no effect on the decision to
  forward. The code decrypts and decompresses every DATA frame that passes the dedup
  gate before it compares the destination. At node B with a route to C, a frame for C
  with the COMPRESSED flag, TTL 5 and an empty payload, which the decompressor rejects,
  is dropped with the decompression warning and nothing is queued; the same frame with
  a payload that decompresses is forwarded.
\<close>

theorem forward_depends_on_decompression:
  "py_slice (drop 32 (data_frame 1 5 id_C [])) 0 8 = id_C \<and> id_C \<noteq> node_id node_B
   \<and> zlib_decompress node_B [] = None
   \<and> rx_frame node_B state_with_route 0 (data_frame 1 5 id_C [])
       = (Returned,
          act [Release KissLock]
            (log_msg WARNING ''Failed to decompress payload; dropping DATA''
               (act [Acquire DataSeenLock, Access Lookup DataSeen, Access Store DataSeen,
                     Release DataSeenLock]
                  ((act [Acquire KissLock] state_with_route)
                     \<lparr>data_seen := (data_seen state_with_route)((id_A, 7) \<mapsto> 0)\<rparr>))))
   \<and> tx_queue (snd (rx_frame node_B state_with_route 0 (data_frame 1 5 id_C []))) = []
   \<and> zlib_decompress node_B [0x78, 0x68] = Some [0x68]
   \<and> tx_queue (snd (rx_frame node_B state_with_route 0 (data_frame 1 5 id_C [0x78, 0x68])))
       = [ax25_dest_addr node_B @ ax25_src_addr node_B @ [0x03, 0xF0]
          @ [1, 0, 1, 4] @ id_A @ [0, 0, 0, 7] @ id_C @ [0, 0, 0, 7] @ [0x78, 0x68]]"
  unfolding rx_frame_fields
  by (simp add: rx_frame_def handle_rx_frame_def rx_eval_defs)

text \<open>
  C2, amended. For every received DATA frame that the node forwards (the TX queue
  changes): the destination is not the node's id, the key was not in the dedup cache,
  the decryption step (when ENCRYPTED is set) and the decompression step (when
  COMPRESSED is set) both succeeded on the payload (\<open>accepted_payload\<close> is not \<open>None\<close>),
  the TTL is above 1 and a route is known; the queued frame is the rebuilt header
  followed by the received body verbatim (the decrypted and decompressed bytes are
  not used), and the application callback is not invoked.
\<close>

theorem forward_only_after_payload_steps:
  assumes "on_kiss_frame n st now frame = (r, st')"
    and "parse_mesh_header (drop 16 frame) = Inr (1, MESH_MSG_DATA, f, ttl, oid, s)"
    and "tx_queue st' \<noteq> tx_queue st"
  shows "py_slice (drop 32 frame) 0 8 \<noteq> node_id n
       \<and> (oid, s) \<notin> dom (data_seen st)
       \<and> accepted_payload n oid f (drop 32 frame) \<noteq> None
       \<and> 1 < ttl \<and> originators st (py_slice (drop 32 frame) 0 8) \<noteq> None
       \<and> (\<exists>h. build_mesh_header MESH_MSG_DATA f (ttl - 1) oid s = Inr h
              \<and> tx_queue st' = tx_queue st @ [wrap_in_ax25_ui n (h @ drop 32 frame)])
       \<and> delivered st' = delivered st"
proof -
  from assms(1) have "handle_data_frame n st now oid s ttl f (drop 32 frame) = (r, st')"
    by (simp add: on_kiss_frame_data [OF assms(2)])
  from handle_data_frame_effects [OF this] assms(3) show ?thesis by auto
qed


theorem forward_only_after_payload_steps_witness:
  "parse_mesh_header (drop 16 (data_frame 1 5 id_C [0x78, 0x68]))
     = Inr (1, MESH_MSG_DATA, 1, 5, id_A, 7)
   \<and> tx_queue (snd (on_kiss_frame node_B state_with_route 0 (data_frame 1 5 id_C [0x78, 0x68])))
       \<noteq> tx_queue state_with_route
   \<and> accepted_payload node_B id_A 1 (drop 32 (data_frame 1 5 id_C [0x78, 0x68])) = Some [0x68]
   \<and> (\<exists>h. build_mesh_header MESH_MSG_DATA 1 4 id_A 7 = Inr h
          \<and> tx_queue (snd (on_kiss_frame node_B state_with_route 0 (data_frame 1 5 id_C [0x78, 0x68])))
              = tx_queue state_with_route
                @ [wrap_in_ax25_ui node_B (h @ drop 32 (data_frame 1 5 id_C [0x78, 0x68]))])"
proof -
  let ?F = "data_frame 1 5 id_C [0x78, 0x68]"
  have p: "parse_mesh_header (drop 16 ?F) = Inr (1, MESH_MSG_DATA, 1, 5, id_A, 7)"
    using example_frame_header [of 1 5 id_C "[0x78, 0x68]"] by simp
  have q: "tx_queue (snd (on_kiss_frame node_B state_with_route 0 ?F)) \<noteq> tx_queue state_with_route"
    by (simp add: rx_eval_defs)
  have a: "accepted_payload node_B id_A 1 (drop 32 ?F) = Some [0x68]"
    by (simp add: accepted_payload_def data_frame_def ax25_prefix_def id_A_def id_C_def py_slice_def
        pack_be32_def MESH_FLAG_ENCRYPTED_def MESH_FLAG_COMPRESSED_def node_B_def
        example_decompress_def)
  from forward_only_after_payload_steps [OF prod.collapse [symmetric] p q] p q a
  show ?thesis by simp
qed


section \<open>Lock discipline\<close>

lemma kiss_send_trace [simp]: "sync_trace (snd (kiss_send st frame)) = sync_trace st"
  by (simp add: kiss_send_def)

lemma deliver_or_forward_trace:
  "sync_trace (snd (deliver_or_forward n st oid s ttl f body dest dseq app)) = sync_trace st
   \<or> sync_trace (snd (deliver_or_forward n st oid s ttl f body dest dseq app))
       = sync_trace st @ [Access Lookup Originators]"
  by (auto simp: deliver_or_forward_def Let_def act_def log_msg_def
      split: option.splits sum.splits)

lemma continue_parsing_trace:
  "sync_trace (snd (continue_parsing n st oid s ttl f body)) = sync_trace st
   \<or> sync_trace (snd (continue_parsing n st oid s ttl f body))
       = sync_trace st @ [Access Lookup Originators]"
proof (cases "accepted_payload n oid f body")
  case None
  from continue_parsing_rejected [OF None prod.collapse [symmetric]] show ?thesis by simp
next
  case (Some app)
  from continue_parsing_accepted [OF Some, of st s ttl] obtain dseq where
    "continue_parsing n st oid s ttl f body
       = deliver_or_forward n st oid s ttl f body (py_slice body 0 8) dseq app" by blast
  with deliver_or_forward_trace [of n st oid s ttl f body "py_slice body 0 8" dseq app]
  show ?thesis by simp
qed

lemma handle_data_frame_trace:
  "\<exists>as \<in> rx_callback_action_lists.
     sync_trace (snd (handle_data_frame n st now oid s ttl f body)) = sync_trace st @ as"
proof (cases "(oid, s) \<in> dom (data_seen st)")
  case True
  then show ?thesis
    by (simp add: handle_data_frame_duplicate act_def rx_callback_action_lists_def)
next
  case False
  let ?st1 = "act [Acquire DataSeenLock, Access Lookup DataSeen, Access Store DataSeen,
                 Release DataSeenLock] (st\<lparr>data_seen := (data_seen st)((oid, s) \<mapsto> now)\<rparr>)"
  from continue_parsing_trace [of n ?st1 oid s ttl f body] False show ?thesis
    by (auto simp: handle_data_frame_fresh act_def rx_callback_action_lists_def
        gate_insert_actions_def)
qed

lemma handle_ogm_trace:
  "\<exists>as \<in> rx_callback_action_lists.
     sync_trace (snd (handle_ogm n st now oid s ttl ph lm)) = sync_trace st @ as"
  by (auto simp: handle_ogm_def update_neighbors_def update_originators_def Let_def act_def
      rx_callback_action_lists_def ogm_actions_def split: option.splits sum.splits)

lemma on_kiss_frame_trace:
  "\<exists>as \<in> rx_callback_action_lists.
     sync_trace (snd (on_kiss_frame n st now frame)) = sync_trace st @ as"
proof -
  have e: "\<exists>as \<in> rx_callback_action_lists. sync_trace st = sync_trace st @ as"
    by (simp add: rx_callback_action_lists_def)
  show ?thesis
    unfolding on_kiss_frame_dispatch
    using e handle_ogm_trace handle_data_frame_trace
    by (auto split: sum.splits prod.splits)
qed

lemma rx_frame_sync:
  "sync_trace (snd (rx_frame n st now frame))
     = sync_trace (snd (on_kiss_frame n (act [Acquire KissLock] st) now frame))
       @ [Release KissLock]"
  by (auto simp: rx_frame_def handle_rx_frame_def log_msg_def act_def
      split: prod.splits outcome.splits)

lemma rx_frame_trace:
  "\<exists>as \<in> rx_callback_action_lists.
     sync_trace (snd (rx_frame n st now frame))
       = sync_trace st @ [Acquire KissLock] @ as @ [Release KissLock]"
proof -
  from on_kiss_frame_trace [of n "act [Acquire KissLock] st" now frame] obtain as where
    "as \<in> rx_callback_action_lists"
    "sync_trace (snd (on_kiss_frame n (act [Acquire KissLock] st) now frame))
       = sync_trace (act [Acquire KissLock] st) @ as" by blast
  then show ?thesis unfolding rx_frame_sync by (auto simp: act_def)
qed

lemma next_seqno_trace:
  "sync_trace (snd (next_seqno st)) = sync_trace st @ seqno_actions"
  by (simp add: next_seqno_def Let_def act_def seqno_actions_def)

lemma other_step_trace:
  "sync_trace (node_step n st (CleanupTick now)) = sync_trace st @ cleanup_actions"
  "sync_trace (node_step n st OgmTick) = sync_trace st @ seqno_actions"
  "\<exists>as \<in> {[], seqno_actions}.
     sync_trace (node_step n st (AppSend dest payload)) = sync_trace st @ as"
    by (auto simp: cleanup_iteration_def act_def cleanup_actions_def
        ogm_iteration_def build_ogm_payload_def send_application_data_def
        split_beta next_seqno_trace split: sum.splits)


text \<open>
  C9, as claimed: every access to the dedup cache, the cleanup loop's scan for expired
  keys included, is made while holding the dedup lock, and every read and mutation of
  the originator and neighbor tables, cleanup eviction included, is made under a
  mutex. One pass of the cleanup loop scans the dedup cache before it takes the dedup
  lock, and scans and deletes from both routing tables while it holds no lock at all:
  neither the dedup lock, nor the sequence lock, nor the lock of the KISS client that
  the RX worker holds while it runs the RX callback.
\<close>

theorem cleanup_unlocked:
  "sync_trace (cleanup_iteration node_B initial_state 10)
     = [Access Scan Originators, Access Delete_dead Originators,
        Access Scan Neighbors, Access Delete_dead Neighbors,
        Access Scan DataSeen,
        Acquire DataSeenLock, Access Delete_dead DataSeen, Release DataSeenLock]
   \<and> \<not> locked_accesses DataSeenLock DataSeen all_kinds {}
         (sync_trace (cleanup_iteration node_B initial_state 10))
   \<and> \<not> locked_accesses KissLock Originators all_kinds {}
         (sync_trace (cleanup_iteration node_B initial_state 10))
   \<and> \<not> locked_accesses DataSeenLock Originators all_kinds {}
         (sync_trace (cleanup_iteration node_B initial_state 10))
   \<and> \<not> locked_accesses SeqnoLock Originators all_kinds {}
         (sync_trace (cleanup_iteration node_B initial_state 10))
   \<and> \<not> locked_accesses KissLock Neighbors all_kinds {}
         (sync_trace (cleanup_iteration node_B initial_state 10))
   \<and> \<not> locked_accesses DataSeenLock Neighbors all_kinds {}
         (sync_trace (cleanup_iteration node_B initial_state 10))
   \<and> \<not> locked_accesses SeqnoLock Neighbors all_kinds {}
         (sync_trace (cleanup_iteration node_B initial_state 10))"
proof -
  have c: "sync_trace (cleanup_iteration node_B initial_state 10)
     = [Access Scan Originators, Access Delete_dead Originators,
        Access Scan Neighbors, Access Delete_dead Neighbors,
        Access Scan DataSeen,
        Acquire DataSeenLock, Access Delete_dead DataSeen, Release DataSeenLock]"
    by (simp add: cleanup_iteration_def act_def initial_state_def)
  show ?thesis unfolding c by (simp add: all_kinds_def)
qed

text \<open>
  C9, amended. For every event of the node (a frame through the RX worker, a cleanup
  pass, an OGM emission, an application send) the actions it performs are such that
  every lookup, store and deletion on the dedup cache (the RX check-and-insert and the
  cleanup loop's deletion of expired keys) is made while holding the dedup lock, and no
  lock is held when the event is over. Every access of the RX worker to the originator
  table and to the neighbor table (OGM updates, DATA forwarding lookups) is made while
  the worker holds the lock of the KISS client, which it takes round the read that runs
  the RX callback; the cleanup pass scans and deletes from both tables with no lock
  held, so that the two threads are not serialized on these tables. (The cleanup loop's
  scan of the dedup cache is not covered by this statement.)
\<close>

theorem lock_discipline:
  "\<exists>as. sync_trace (node_step n st ev) = sync_trace st @ as
      \<and> locked_accesses DataSeenLock DataSeen {Lookup, Store, Delete_dead} {} as
      \<and> (case ev of
           RxFrame now frame \<Rightarrow>
             locked_accesses KissLock Originators all_kinds {} as
           \<and> locked_accesses KissLock Neighbors all_kinds {} as
         | CleanupTick now \<Rightarrow>
             lock_free_accesses Originators {} as \<and> lock_free_accesses Neighbors {} as
         | OgmTick \<Rightarrow>
             lock_free_accesses Originators {} as \<and> lock_free_accesses Neighbors {} as
         | AppSend dest payload \<Rightarrow>
             lock_free_accesses Originators {} as \<and> lock_free_accesses Neighbors {} as)
      \<and> held_after {} as = {}"
proof (cases ev)
  case (RxFrame now frame)
  from rx_frame_trace [of n st now frame] obtain as where
    as: "as \<in> rx_callback_action_lists"
      "sync_trace (snd (rx_frame n st now frame))
         = sync_trace st @ [Acquire KissLock] @ as @ [Release KissLock]"
    by blast
  let ?as = "[Acquire KissLock] @ as @ [Release KissLock]"
  have "locked_accesses DataSeenLock DataSeen {Lookup, Store, Delete_dead} {} ?as
      \<and> locked_accesses KissLock Originators all_kinds {} ?as
      \<and> locked_accesses KissLock Neighbors all_kinds {} ?as
      \<and> held_after {} ?as = {}"
    using as(1)
    by (auto simp: rx_callback_action_lists_def gate_insert_actions_def ogm_actions_def
        all_kinds_def)
  with as(2) RxFrame show ?thesis by auto
next
  case (CleanupTick now)
  have "locked_accesses DataSeenLock DataSeen {Lookup, Store, Delete_dead} {} cleanup_actions
      \<and> lock_free_accesses Originators {} cleanup_actions
      \<and> lock_free_accesses Neighbors {} cleanup_actions
      \<and> held_after {} cleanup_actions = {}"
    by (simp add: cleanup_actions_def)
  with other_step_trace(1) [of n st now] show ?thesis unfolding CleanupTick by auto
next
  case OgmTick
  have "locked_accesses DataSeenLock DataSeen {Lookup, Store, Delete_dead} {} seqno_actions
      \<and> lock_free_accesses Originators {} seqno_actions
      \<and> lock_free_accesses Neighbors {} seqno_actions
      \<and> held_after {} seqno_actions = {}"
    by (simp add: seqno_actions_def)
  with other_step_trace(2) [of n st] show ?thesis unfolding OgmTick by auto
next
  case (AppSend dest payload)
  from other_step_trace(3) [of n st dest payload] obtain as where
    as: "as \<in> {[], seqno_actions}"
      "sync_trace (node_step n st (AppSend dest payload)) = sync_trace st @ as"
    by blast
  have "locked_accesses DataSeenLock DataSeen {Lookup, Store, Delete_dead} {} as
      \<and> lock_free_accesses Originators {} as
      \<and> lock_free_accesses Neighbors {} as
      \<and> held_after {} as = {}"
    using as(1) by (auto simp: seqno_actions_def)
  with as(2) show ?thesis unfolding AppSend by auto
qed

theorem lock_discipline_witness:
  "sync_trace (node_step node_B state_with_route (RxFrame 0 (data_frame 0 5 id_C [0x68, 0x69])))
     = sync_trace state_with_route
       @ [Acquire KissLock, Acquire DataSeenLock, Access Lookup DataSeen, Access Store DataSeen,
          Release DataSeenLock, Access Lookup Originators, Release KissLock]
   \<and> locked_accesses KissLock Originators all_kinds {}
       [Acquire KissLock, Acquire DataSeenLock, Access Lookup DataSeen, Access Store DataSeen,
        Release DataSeenLock, Access Lookup Originators, Release KissLock]
   \<and> locked_accesses DataSeenLock DataSeen {Lookup, Store, Delete_dead} {}
       [Acquire KissLock, Acquire DataSeenLock, Access Lookup DataSeen, Access Store DataSeen,
        Release DataSeenLock, Access Lookup Originators, Release KissLock]
   \<and> sync_trace (node_step node_B initial_state (CleanupTick 10))
       = sync_trace initial_state @ cleanup_actions
   \<and> locked_accesses DataSeenLock DataSeen {Lookup, Store, Delete_dead} {} cleanup_actions
   \<and> lock_free_accesses Originators {} cleanup_actions
   \<and> lock_free_accesses Neighbors {} cleanup_actions
   \<and> held_after {} cleanup_actions = {}"
proof -
  have r: "sync_trace (node_step node_B state_with_route (RxFrame 0 (data_frame 0 5 id_C [0x68, 0x69])))
     = sync_trace state_with_route
       @ [Acquire KissLock, Acquire DataSeenLock, Access Lookup DataSeen, Access Store DataSeen,
          Release DataSeenLock, Access Lookup Originators, Release KissLock]"
    by (simp add: rx_frame_def handle_rx_frame_def rx_eval_defs)
  have t: "sync_trace (node_step node_B initial_state (CleanupTick 10))
     = sync_trace initial_state @ cleanup_actions"
    by (simp add: cleanup_iteration_def act_def cleanup_actions_def)
  from lock_discipline [of node_B state_with_route "RxFrame 0 (data_frame 0 5 id_C [0x68, 0x69])"]
    lock_discipline [of node_B initial_state "CleanupTick 10"] r t
  show ?thesis by auto
qed

end
